theory Spec2Isabelle
  imports Complex_Main "HOL-Library.AList"
begin

section \<open>JavaScript values used by the route handlers\<close>

text \<open>
  The handlers compute with JavaScript numbers. Article counts and totals are integers
  (column \<open>article_count INTEGER\<close>) and are modelled as \<open>int\<close>. The quotient
  \<open>dominantCount / data.total\<close> and the parsed \<open>threshold\<close> are values of type
  \<open>number\<close>: a finite value, one of the two infinities, or \<open>NaN\<close>, so that every
  outcome of a JavaScript division is a value of the model. Finite values are exact
  rationals: the rounding of IEEE doubles and the loss of precision above \<open>2^53\<close>
  are not modelled.
\<close>

datatype number = NaN | NegInfinity | Finite rat | Infinity

text \<open>\<open>a / b\<close> on two integers.\<close>

definition js_div :: "int \<Rightarrow> int \<Rightarrow> number" where
  "js_div a b =
     (if b = 0 then (if a = 0 then NaN else if 0 < a then Infinity else NegInfinity)
      else Finite (of_int a / of_int b))"

text \<open>\<open>a >= b\<close>: false as soon as one side is \<open>NaN\<close>.\<close>

fun js_ge :: "number \<Rightarrow> number \<Rightarrow> bool" where
  "js_ge NaN b = False"
| "js_ge a NaN = False"
| "js_ge Infinity b = True"
| "js_ge a NegInfinity = True"
| "js_ge (Finite x) (Finite y) = (y \<le> x)"
| "js_ge a b = False"

text \<open>\<open>a <= b\<close> is \<open>b >= a\<close> on numbers.\<close>

definition js_le :: "number \<Rightarrow> number \<Rightarrow> bool" where
  "js_le a b = js_ge b a"

text \<open>\<open>a - b\<close>.\<close>

fun js_minus :: "number \<Rightarrow> number \<Rightarrow> number" where
  "js_minus NaN b = NaN"
| "js_minus a NaN = NaN"
| "js_minus (Finite x) (Finite y) = Finite (x - y)"
| "js_minus Infinity Infinity = NaN"
| "js_minus NegInfinity NegInfinity = NaN"
| "js_minus Infinity b = Infinity"
| "js_minus NegInfinity b = NegInfinity"
| "js_minus (Finite x) Infinity = NegInfinity"
| "js_minus (Finite x) NegInfinity = Infinity"

text \<open>\<open>v > 0\<close> for the value a sort comparator returns (\<open>NaN\<close> counts as \<open>+0\<close>).\<close>

fun js_positive :: "number \<Rightarrow> bool" where
  "js_positive (Finite x) = (0 < x)"
| "js_positive Infinity = True"
| "js_positive v = False"

subsection \<open>\<open>parseInt(s, 10)\<close> and \<open>parseFloat(s)\<close>\<close>

text \<open>
  Both skip leading white space, read an optional sign and then the longest prefix that
  is a number; \<open>NaN\<close> when there is none. \<open>parseInt\<close> returns an integer or
  \<open>NaN\<close> (\<open>None\<close>). Strings are byte strings here, so only the ASCII white space
  characters are recognised.
\<close>

definition is_space :: "char \<Rightarrow> bool" where
  "is_space c = (c \<in> set [CHR 0x09, CHR 0x0A, CHR 0x0B, CHR 0x0C, CHR 0x0D, CHR 0x20])"

definition is_digit :: "char \<Rightarrow> bool" where
  "is_digit c = (c \<in> set ''0123456789'')"

definition digit_value :: "char \<Rightarrow> int" where
  "digit_value c = of_char c - 48"

definition digits_value :: "string \<Rightarrow> int" where
  "digits_value ds = foldl (\<lambda>n c. 10 * n + digit_value c) 0 ds"

text \<open>The sign and the rest of the text after it.\<close>

fun split_sign :: "string \<Rightarrow> bool \<times> string" where
  "split_sign [] = (False, [])"
| "split_sign (c # cs) =
     (if c = CHR ''-'' then (True, cs) else if c = CHR ''+'' then (False, cs)
      else (False, c # cs))"

definition parseInt :: "string \<Rightarrow> int option" where
  "parseInt s =
     (let (neg, u) = split_sign (dropWhile is_space s);
          ds = takeWhile is_digit u
      in if ds = [] then None
         else Some (if neg then - digits_value ds else digits_value ds))"

text \<open>The exponent part \<open>e[+-]digits\<close> of a decimal literal, 0 when it is absent.\<close>

fun exponent_part :: "string \<Rightarrow> int" where
  "exponent_part [] = 0"
| "exponent_part (c # cs) =
     (if c = CHR ''e'' \<or> c = CHR ''E'' then
        (let (neg, u) = split_sign cs; ds = takeWhile is_digit u
         in if ds = [] then 0
            else if neg then - digits_value ds else digits_value ds)
      else 0)"

definition scale10 :: "rat \<Rightarrow> int \<Rightarrow> rat" where
  "scale10 m e = (if 0 \<le> e then m * 10 ^ nat e else m / 10 ^ nat (- e))"

definition parseFloat :: "string \<Rightarrow> number" where
  "parseFloat s =
     (let (neg, u) = split_sign (dropWhile is_space s)
      in if take 8 u = ''Infinity'' then (if neg then NegInfinity else Infinity)
         else
           (let ip = takeWhile is_digit u;
                r1 = dropWhile is_digit u;
                fp = (case r1 of [] \<Rightarrow> [] | c # r \<Rightarrow>
                        if c = CHR ''.'' then takeWhile is_digit r else []);
                r2 = (case r1 of [] \<Rightarrow> [] | c # r \<Rightarrow>
                        if c = CHR ''.'' then dropWhile is_digit r else r1);
                m = scale10 (of_int (digits_value (ip @ fp)))
                      (exponent_part r2 - int (length fp))
            in if ip = [] \<and> fp = [] then NaN
               else Finite (if neg then - m else m)))"

text \<open>\<open>searchParams.get(name) || dflt\<close>: the default when the parameter is absent or
  empty.\<close>

definition param_or :: "string option \<Rightarrow> string \<Rightarrow> string" where
  "param_or p dflt = (case p of None \<Rightarrow> dflt | Some s \<Rightarrow> if s = [] then dflt else s)"

subsection \<open>Objects, maps and arrays\<close>

text \<open>
  An object \<open>{ [key: string]: number }\<close> is the association list of its own
  properties in insertion order. It is created by \<open>{}\<close> and so inherits from
  \<open>Object.prototype\<close>: eleven native functions and the accessor \<open>__proto__\<close>,
  whose getter returns the prototype itself. A \<open>Map\<close> is an association list with
  numeric keys and inherits nothing that a key could reach.
\<close>

definition object_prototype_functions :: "string list" where
  "object_prototype_functions =
     [''constructor'', ''__defineGetter__'', ''__defineSetter__'', ''hasOwnProperty'',
      ''__lookupGetter__'', ''__lookupSetter__'', ''isPrototypeOf'',
      ''propertyIsEnumerable'', ''toString'', ''valueOf'', ''toLocaleString'']"

datatype inherited = Native_function string | Prototype_object

text \<open>
  What a read of \<open>obj[k]\<close> finds when \<open>obj\<close> has no own property \<open>k\<close>: the
  function of that name (\<open>constructor\<close> is the function \<open>Object\<close>), the
  prototype for \<open>__proto__\<close>, or nothing (\<open>undefined\<close>).
\<close>

definition inherited_property :: "string \<Rightarrow> inherited option" where
  "inherited_property k =
     (if k = ''__proto__'' then Some Prototype_object
      else if k \<in> set object_prototype_functions then
        Some (Native_function (if k = ''constructor'' then ''Object'' else k))
      else None)"

text \<open>
  The values the handlers store in such an object: a number, or the string that
  \<open>+\<close> makes of an inherited value and a number. \<open>Text (Native_function f) s\<close>
  is the string \<open>function f() { [native code] }\<close> followed by \<open>s\<close>, and
  \<open>Text Prototype_object s\<close> is \<open>[object Object]\<close> followed by \<open>s\<close>.
  Such a string is not empty, so it is truthy, and it is no numeric literal, so it is
  \<open>NaN\<close> as a number.
\<close>

datatype js_value = Number int | Text inherited string

type_synonym js_object = "(string \<times> js_value) list"

text \<open>\<open>String(n)\<close> for an integer.\<close>

function decimal_nat :: "nat \<Rightarrow> string" where
  "decimal_nat n =
     (if n < 10 then [''0123456789'' ! n]
      else decimal_nat (n div 10) @ [''0123456789'' ! (n mod 10)])"
  by pat_completeness auto
termination
  by (relation "measure id") auto

declare decimal_nat.simps [simp del]

definition decimal :: "int \<Rightarrow> string" where
  "decimal i = (if i < 0 then CHR ''-'' # decimal_nat (nat (- i)) else decimal_nat (nat i))"

text \<open>
  \<open>obj[k] = v\<close> for a number or a string \<open>v\<close>: the value is replaced in place
  when the object has the property and the pair is appended otherwise; for
  \<open>__proto__\<close> the setter of the prototype runs instead and ignores a value that is
  not an object, so nothing is stored.
\<close>

definition object_set :: "string \<Rightarrow> js_value \<Rightarrow> js_object \<Rightarrow> js_object" where
  "object_set k v obj = (if k = ''__proto__'' then obj else AList.update k v obj)"

text \<open>
  \<open>(obj[k] || 0) + count\<close>: the sum when the property is a number or absent, a
  string when the read finds a string or an inherited value.
\<close>

definition or_zero_plus :: "js_object \<Rightarrow> string \<Rightarrow> int \<Rightarrow> js_value" where
  "or_zero_plus obj k count =
     (case map_of obj k of
        Some (Number c) \<Rightarrow> Number (c + count)
      | Some (Text i s) \<Rightarrow> Text i (s @ decimal count)
      | None \<Rightarrow>
          (case inherited_property k of
             Some i \<Rightarrow> Text i (decimal count)
           | None \<Rightarrow> Number (0 + count)))"

text \<open>
  \<open>Object.entries\<close> lists the array-index keys first (canonical decimal strings up to
  \<open>2^32 - 2\<close>) in ascending numeric order, then the other keys in insertion order.
\<close>

definition is_array_index :: "string \<Rightarrow> bool" where
  "is_array_index k =
     (k \<noteq> [] \<and> list_all is_digit k \<and> (k = ''0'' \<or> hd k \<noteq> CHR ''0'')
      \<and> digits_value k \<le> 4294967294)"

definition object_entries :: "js_object \<Rightarrow> (string \<times> js_value) list" where
  "object_entries obj =
     sort_key (\<lambda>e. digits_value (fst e)) (filter (\<lambda>e. is_array_index (fst e)) obj)
     @ filter (\<lambda>e. \<not> is_array_index (fst e)) obj"

text \<open>
  \<open>xs.slice(0, end)\<close>: a \<open>NaN\<close> end is 0, a negative end counts from the end of the
  array.
\<close>

definition slice0 :: "'a list \<Rightarrow> int option \<Rightarrow> 'a list" where
  "slice0 xs end =
     (case end of
        None \<Rightarrow> []
      | Some e \<Rightarrow>
          if e < 0 then take (nat (max (int (length xs) + e) 0)) xs
          else take (nat (min e (int (length xs)))) xs)"

text \<open>
  \<open>xs.sort(cmp)\<close>: the sort is stable, and an element moves behind another only when
  the comparator returns a positive number for the pair. For a consistent comparator
  every stable sort returns this list.
\<close>

fun js_insert :: "('a \<Rightarrow> 'a \<Rightarrow> number) \<Rightarrow> 'a \<Rightarrow> 'a list \<Rightarrow> 'a list" where
  "js_insert cmp x [] = [x]"
| "js_insert cmp x (y # ys) =
     (if js_positive (cmp x y) then y # js_insert cmp x ys else x # y # ys)"

definition js_sort :: "('a \<Rightarrow> 'a \<Rightarrow> number) \<Rightarrow> 'a list \<Rightarrow> 'a list" where
  "js_sort cmp xs = foldr (js_insert cmp) xs []"

section \<open>The data of the blindspot routes\<close>

text \<open>
  The columns of \<open>stories\<close> that the routes select, a row of the query
  \<open>stories JOIN story_coverage\<close>, the entry kept per story while the rows are
  grouped, and a \<open>BlindspotStory\<close> of the response.
\<close>

record story =
  id' :: int
  representative_headline :: string
  summary :: "string option"
  first_seen_date :: string
  last_updated_date :: string
  topic_tags :: "string option"

record story_row = story +
  bias_classification :: string
  article_count :: int

record story_data =
  story :: story
  coverage :: js_object
  total' :: int

record blindspot_story = story +
  bias_distribution :: js_object
  total_articles :: int
  dominant_bias :: string
  dominant_percentage :: number

text \<open>
  What the handler meets outside itself: \<open>getRequestContext()\<close> throws or returns
  the environment, the binding \<open>env.DB\<close> is there or not, and the one query the
  handler runs throws or returns a \<open>D1Result\<close>. The request is its two search
  parameters.
\<close>

datatype 'a outcome = Throws string | Returns 'a

record 'r d1_result =
  success :: bool
  results :: "'r list option"
  error :: "string option"

type_synonym 'r request_context = "'r d1_result outcome option outcome"

record request =
  limit_param :: "string option"
  threshold_param :: "string option"

text \<open>A JSON response: the body with status 200, or a status, an error and its details.\<close>

datatype 'a response = Json 'a | Json_error nat string "string option"

section \<open>\<open>GET /api/blindspots\<close> (src/app/api/blindspots/route.ts)\<close>

text \<open>One turn of the loop that groups the rows by story (lines 82 to 101).\<close>

definition group_row :: "story_row \<Rightarrow> (int \<times> story_data) list \<Rightarrow> (int \<times> story_data) list" where
  "group_row row storiesMap =
     (let m = (if map_of storiesMap (id' row) = None then
                 AList.update (id' row)
                   \<lparr>story = \<lparr>id' = id' row,
                      representative_headline = representative_headline row,
                      summary = summary row,
                      first_seen_date = first_seen_date row,
                      last_updated_date = last_updated_date row,
                      topic_tags = topic_tags row\<rparr>,
                    coverage = [], total' = 0\<rparr> storiesMap
               else storiesMap)
      in AList.map_entry (id' row)
           (\<lambda>storyData. storyData
              \<lparr>coverage := object_set (bias_classification row)
                             (Number (article_count row)) (coverage storyData),
               total' := total' storyData + article_count row\<rparr>) m)"

definition group_rows :: "story_row list \<Rightarrow> (int \<times> story_data) list" where
  "group_rows rows = fold group_row rows []"

text \<open>
  The dominant bias category and its count (lines 110 to 119): one turn of the loop over
  \<open>Object.entries(data.coverage)\<close>, and the loop from \<open>dominantBias = ""\<close>,
  \<open>dominantCount = 0\<close>. The comparison \<open>count > dominantCount\<close> is false for a
  string, which is \<open>NaN\<close> as a number.
\<close>

definition dominant_step :: "string \<times> int \<Rightarrow> string \<times> js_value \<Rightarrow> string \<times> int" where
  "dominant_step acc entry =
     (case acc of (dominantBias, dominantCount) \<Rightarrow>
        case entry of
          (bias, Number count) \<Rightarrow>
            if count > dominantCount then (bias, count) else (dominantBias, dominantCount)
        | (bias, Text i s) \<Rightarrow> (dominantBias, dominantCount))"

definition find_dominant :: "js_object \<Rightarrow> string \<times> int" where
  "find_dominant cov = foldl dominant_step ([], 0) (object_entries cov)"

text \<open>
  The body of the loop over the stories (lines 106 to 134): \<open>None\<close> when the story
  is skipped or below the threshold, the pushed element otherwise.
\<close>

definition blindspot_of :: "number \<Rightarrow> story_data \<Rightarrow> blindspot_story option" where
  "blindspot_of threshold d =
     (if total' d < 3 then None
      else
        (let (dominantBias, dominantCount) = find_dominant (coverage d);
             dominantPercentage = js_div dominantCount (total' d)
         in if js_ge dominantPercentage threshold then
              Some \<lparr>id' = id' (story d),
                    representative_headline = representative_headline (story d),
                    summary = summary (story d),
                    first_seen_date = first_seen_date (story d),
                    last_updated_date = last_updated_date (story d),
                    topic_tags = topic_tags (story d),
                    bias_distribution = coverage d,
                    total_articles = total' d,
                    dominant_bias = dominantBias,
                    dominant_percentage = dominantPercentage\<rparr>
            else None))"

definition identify_blindspots :: "number \<Rightarrow> (int \<times> story_data) list \<Rightarrow> blindspot_story list" where
  "identify_blindspots threshold storiesMap =
     List.map_filter (\<lambda>(i, d). blindspot_of threshold d) storiesMap"

text \<open>The comparator of the final sort: \<open>(a, b) => b.dominant_percentage - a.dominant_percentage\<close>.\<close>

definition by_dominant_percentage :: "blindspot_story \<Rightarrow> blindspot_story \<Rightarrow> number" where
  "by_dominant_percentage a b = js_minus (dominant_percentage b) (dominant_percentage a)"

text \<open>The handler from the grouping on (lines 67 to 140), for the parsed parameters.\<close>

definition detect_blindspots :: "int option \<Rightarrow> number \<Rightarrow> story_row list \<Rightarrow> blindspot_story list" where
  "detect_blindspots limit threshold rows =
     slice0 (js_sort by_dominant_percentage (identify_blindspots threshold (group_rows rows)))
       limit"

definition blindspots_GET :: "request \<Rightarrow> story_row request_context \<Rightarrow> blindspot_story list response" where
  "blindspots_GET req ctx =
     (let limit = parseInt (param_or (limit_param req) ''10'');
          threshold = parseFloat (param_or (threshold_param req) ''0.7'')
      in case ctx of
           Throws msg \<Rightarrow> Json_error 500 ''Failed to fetch blindspots'' (Some msg)
         | Returns None \<Rightarrow> Json_error 500 ''Database binding not found'' None
         | Returns (Some (Throws msg)) \<Rightarrow>
             Json_error 500 ''Failed to fetch blindspots'' (Some msg)
         | Returns (Some (Returns storiesResult)) \<Rightarrow>
             (case results storiesResult of
                None \<Rightarrow> Json []
              | Some rows \<Rightarrow>
                  if rows = [] then Json []
                  else Json (detect_blindspots limit threshold rows)))"

section \<open>The second \<open>GET /api/blindspots\<close> (appended to src/app/api/stories/[storyId]/route.ts)\<close>

text \<open>
  The grouping loop of the copy (lines 222 to 245) adds the row's count to what the
  object already holds for the bias category: \<open>(coverage[biasKey] || 0) + count\<close>,
  where the read also finds what the object inherits.
\<close>

definition group_row_dup :: "story_row \<Rightarrow> (int \<times> story_data) list \<Rightarrow> (int \<times> story_data) list" where
  "group_row_dup row storiesMap =
     (let m = (if map_of storiesMap (id' row) = None then
                 AList.update (id' row)
                   \<lparr>story = \<lparr>id' = id' row,
                      representative_headline = representative_headline row,
                      summary = summary row,
                      first_seen_date = first_seen_date row,
                      last_updated_date = last_updated_date row,
                      topic_tags = topic_tags row\<rparr>,
                    coverage = [], total' = 0\<rparr> storiesMap
               else storiesMap);
          biasKey = bias_classification row;
          count = article_count row
      in AList.map_entry (id' row)
           (\<lambda>storyData. storyData
              \<lparr>coverage := object_set biasKey
                             (or_zero_plus (coverage storyData) biasKey count)
                             (coverage storyData),
               total' := total' storyData + count\<rparr>) m)"

definition group_rows_dup :: "story_row list \<Rightarrow> (int \<times> story_data) list" where
  "group_rows_dup rows = fold group_row_dup rows []"

text \<open>The loop body of the copy (lines 252 to 280) guards the division.\<close>

definition blindspot_of_dup :: "number \<Rightarrow> story_data \<Rightarrow> blindspot_story option" where
  "blindspot_of_dup threshold d =
     (if total' d < 3 then None
      else
        (let (dominantBias, dominantCount) = find_dominant (coverage d);
             dominantPercentage =
               (if total' d > 0 then js_div dominantCount (total' d) else Finite 0)
         in if js_ge dominantPercentage threshold then
              Some \<lparr>id' = id' (story d),
                    representative_headline = representative_headline (story d),
                    summary = summary (story d),
                    first_seen_date = first_seen_date (story d),
                    last_updated_date = last_updated_date (story d),
                    topic_tags = topic_tags (story d),
                    bias_distribution = coverage d,
                    total_articles = total' d,
                    dominant_bias = dominantBias,
                    dominant_percentage = dominantPercentage\<rparr>
            else None))"

definition identify_blindspots_dup :: "number \<Rightarrow> (int \<times> story_data) list \<Rightarrow> blindspot_story list" where
  "identify_blindspots_dup threshold storiesMap =
     List.map_filter (\<lambda>(i, d). blindspot_of_dup threshold d) storiesMap"

definition detect_blindspots_dup :: "int option \<Rightarrow> number \<Rightarrow> story_row list \<Rightarrow> blindspot_story list" where
  "detect_blindspots_dup limit threshold rows =
     slice0 (js_sort by_dominant_percentage
               (identify_blindspots_dup threshold (group_rows_dup rows))) limit"

definition blindspots_GET_dup :: "request \<Rightarrow> story_row request_context \<Rightarrow> blindspot_story list response" where
  "blindspots_GET_dup req ctx =
     (let limit = parseInt (param_or (limit_param req) ''10'');
          threshold = parseFloat (param_or (threshold_param req) ''0.7'')
      in case ctx of
           Throws msg \<Rightarrow> Json_error 500 ''Failed to access Cloudflare context'' None
         | Returns None \<Rightarrow> Json_error 500 ''Database binding not found'' None
         | Returns (Some (Throws msg)) \<Rightarrow>
             Json_error 500 ''Failed to fetch blindspots'' (Some msg)
         | Returns (Some (Returns storiesResult)) \<Rightarrow>
             if \<not> success storiesResult then
               Json_error 500 ''Database query failed'' (error storiesResult)
             else
               (case results storiesResult of
                  None \<Rightarrow> Json []
                | Some rows \<Rightarrow>
                    if rows = [] then Json []
                    else Json (detect_blindspots_dup limit threshold rows)))"

section \<open>Notions used to state the properties\<close>

text \<open>
  The rows of the query result that belong to one story, and the story's total coverage:
  the sum of their article counts.
\<close>

definition rows_of :: "int \<Rightarrow> story_row list \<Rightarrow> story_row list" where
  "rows_of sid rows = filter (\<lambda>r. id' r = sid) rows"

definition story_total :: "int \<Rightarrow> story_row list \<Rightarrow> int" where
  "story_total sid rows = sum_list (map article_count (rows_of sid rows))"

text \<open>
  The primary key of \<open>story_coverage\<close>: the result holds at most one row per pair of
  a story and a bias category.
\<close>

definition primary_key :: "story_row list \<Rightarrow> bool" where
  "primary_key rows = distinct (map (\<lambda>r. (id' r, bias_classification r)) rows)"

text \<open>The quotient the loop computes for a story that reaches the division.\<close>

definition dominant_percentage_of :: "story_data \<Rightarrow> number" where
  "dominant_percentage_of d = js_div (snd (find_dominant (coverage d))) (total' d)"

text \<open>The list a response carries; an error response carries none.\<close>

definition response_body :: "'a list response \<Rightarrow> 'a list" where
  "response_body r = (case r of Json xs \<Rightarrow> xs | Json_error st e dt \<Rightarrow> [])"

text \<open>A context whose database answers the query with the given rows.\<close>

definition returning :: "'r list \<Rightarrow> 'r request_context" where
  "returning rows = Returns (Some (Returns \<lparr>success = True, results = Some rows, error = None\<rparr>))"

text \<open>The rational a finite number stands for; the key of the descending sort.\<close>

definition finite_value :: "number \<Rightarrow> rat" where
  "finite_value p = (case p of Finite q \<Rightarrow> q | _ \<Rightarrow> 0)"

definition descending_key :: "blindspot_story \<Rightarrow> rat" where
  "descending_key b = - finite_value (dominant_percentage b)"

text \<open>A list of numbers in descending order.\<close>

definition descending :: "number list \<Rightarrow> bool" where
  "descending ps = sorted_wrt js_ge ps"

text \<open>Rows and requests of the scenarios.\<close>

definition example_row :: "int \<Rightarrow> string \<Rightarrow> int \<Rightarrow> story_row" where
  "example_row i bias n =
     \<lparr>id' = i, representative_headline = ''Flooding hits Mogadishu'', summary = None,
      first_seen_date = ''2025-04-28'', last_updated_date = ''2025-04-29'',
      topic_tags = None, bias_classification = bias, article_count = n\<rparr>"

definition example_data :: "int \<Rightarrow> js_object \<Rightarrow> int \<Rightarrow> story_data" where
  "example_data i cov n =
     \<lparr>story = \<lparr>id' = i, representative_headline = ''Flooding hits Mogadishu'',
        summary = None, first_seen_date = ''2025-04-28'',
        last_updated_date = ''2025-04-29'', topic_tags = None\<rparr>,
      coverage = cov, total' = n\<rparr>"

definition example_blindspot :: "int \<Rightarrow> js_object \<Rightarrow> int \<Rightarrow> string \<Rightarrow> rat \<Rightarrow> blindspot_story" where
  "example_blindspot i cov n bias p =
     \<lparr>id' = i, representative_headline = ''Flooding hits Mogadishu'', summary = None,
      first_seen_date = ''2025-04-28'', last_updated_date = ''2025-04-29'',
      topic_tags = None, bias_distribution = cov, total_articles = n,
      dominant_bias = bias, dominant_percentage = Finite p\<rparr>"

definition no_parameters :: request where
  "no_parameters = \<lparr>limit_param = None, threshold_param = None\<rparr>"

text \<open>The result of the query for eleven stories, each with three articles of one category.\<close>

definition eleven_stories :: "story_row list" where
  "eleven_stories =
     [example_row 1 ''Western'' 3, example_row 2 ''Western'' 3, example_row 3 ''Western'' 3,
      example_row 4 ''Western'' 3, example_row 5 ''Western'' 3, example_row 6 ''Western'' 3,
      example_row 7 ''Western'' 3, example_row 8 ''Western'' 3, example_row 9 ''Western'' 3,
      example_row 10 ''Western'' 3, example_row 11 ''Western'' 3]"

section \<open>\<open>GET /api/stories/[storyId]\<close> (src/app/api/stories/[storyId]/route.ts)\<close>

text \<open>
  An article with the name and bias of its source, as the second query selects it, and a
  row of the third query.
\<close>

record article =
  article_id :: int
  title :: string
  content_snippet :: "string option"
  url :: string
  published_date :: "string option"
  fetched_date :: string
  source_id :: int
  source_name :: string
  source_bias :: string

record bias_coverage =
  coverage_bias_classification :: string
  coverage_article_count :: int

text \<open>
  The database as the handler uses it: the answer of each of its three statements for
  the bound story id. \<open>first()\<close> returns the first row or \<open>null\<close>, which it does
  exactly when no row of \<open>stories\<close> has this id.
\<close>

record story_database =
  story_first :: "int \<Rightarrow> story option outcome"
  articles_all :: "int \<Rightarrow> article d1_result outcome"
  bias_all :: "int \<Rightarrow> bias_coverage d1_result outcome"

text \<open>The statement \<open>SELECT ... FROM stories WHERE id = ?\<close> on a table of stories.\<close>

definition select_story :: "story list \<Rightarrow> int \<Rightarrow> story option outcome" where
  "select_story stories_table storyId = Returns (find (\<lambda>s. id' s = storyId) stories_table)"

text \<open>The reads of the database, in the order the handler makes them.\<close>

datatype db_read = Story_query int | Articles_query int | Bias_query int

record story_detail =
  detail_story :: story
  detail_articles :: "article list"
  articlesByBias :: "(string \<times> article list) list"
  detail_bias_distribution :: "bias_coverage list"

text \<open>
  The loop that groups the articles by the bias of their source (lines 85 to 94). The
  array of a bias is created when \<open>articlesByBias[article.source_bias]\<close> is falsy.
  For a bias named like a property of \<open>Object.prototype\<close> the read finds the
  inherited value, no array is created, and \<open>push\<close> is not a function of that
  value: the call throws a \<open>TypeError\<close>.
\<close>

definition group_article :: "article \<Rightarrow> (string \<times> article list) list \<Rightarrow> (string \<times> article list) list outcome" where
  "group_article a byBias =
     (case map_of byBias (source_bias a) of
        Some as \<Rightarrow> Returns (AList.update (source_bias a) (as @ [a]) byBias)
      | None \<Rightarrow>
          (case inherited_property (source_bias a) of
             Some i \<Rightarrow> Throws ''articlesByBias[article.source_bias].push is not a function''
           | None \<Rightarrow> Returns (AList.update (source_bias a) [a] byBias)))"

fun group_articles :: "article list \<Rightarrow> (string \<times> article list) list \<Rightarrow> (string \<times> article list) list outcome" where
  "group_articles [] byBias = Returns byBias"
| "group_articles (a # as) byBias =
     (case group_article a byBias of
        Throws msg \<Rightarrow> Throws msg
      | Returns byBias' \<Rightarrow> group_articles as byBias')"

definition results_or_empty :: "'r d1_result \<Rightarrow> 'r list" where
  "results_or_empty r = (case results r of None \<Rightarrow> [] | Some rows \<Rightarrow> rows)"

text \<open>
  The handler returns its response together with the reads it has made. A statement
  that throws is caught by the handler's \<open>catch\<close>.
\<close>

definition story_GET :: "string \<Rightarrow> story_database option outcome \<Rightarrow> story_detail response \<times> db_read list" where
  "story_GET storyId_param ctx =
     (case parseInt storyId_param of
        None \<Rightarrow> (Json_error 400 ''Invalid story ID'' None, [])
      | Some storyId \<Rightarrow>
          (case ctx of
             Throws msg \<Rightarrow> (Json_error 500 ''Failed to fetch story articles'' (Some msg), [])
           | Returns None \<Rightarrow> (Json_error 500 ''Database binding not found'' None, [])
           | Returns (Some DB) \<Rightarrow>
               (case story_first DB storyId of
                  Throws msg \<Rightarrow>
                    (Json_error 500 ''Failed to fetch story articles'' (Some msg),
                     [Story_query storyId])
                | Returns None \<Rightarrow>
                    (Json_error 404 ''Story not found'' None, [Story_query storyId])
                | Returns (Some storyResult) \<Rightarrow>
                    (case articles_all DB storyId of
                       Throws msg \<Rightarrow>
                         (Json_error 500 ''Failed to fetch story articles'' (Some msg),
                          [Story_query storyId, Articles_query storyId])
                     | Returns articlesResult \<Rightarrow>
                         (case bias_all DB storyId of
                            Throws msg \<Rightarrow>
                              (Json_error 500 ''Failed to fetch story articles'' (Some msg),
                               [Story_query storyId, Articles_query storyId,
                                Bias_query storyId])
                          | Returns biasResult \<Rightarrow>
                              (case group_articles (results_or_empty articlesResult) [] of
                                 Throws msg \<Rightarrow>
                                   (Json_error 500 ''Failed to fetch story articles''
                                      (Some msg),
                                    [Story_query storyId, Articles_query storyId,
                                     Bias_query storyId])
                               | Returns byBias \<Rightarrow>
                                   (Json \<lparr>detail_story = storyResult,
                                      detail_articles = results_or_empty articlesResult,
                                      articlesByBias = byBias,
                                      detail_bias_distribution =
                                        results_or_empty biasResult\<rparr>,
                                    [Story_query storyId, Articles_query storyId,
                                     Bias_query storyId])))))))"

definition example_story :: "int \<Rightarrow> story" where
  "example_story i =
     \<lparr>id' = i, representative_headline = ''Flooding hits Mogadishu'', summary = None,
      first_seen_date = ''2025-04-28'', last_updated_date = ''2025-04-29'',
      topic_tags = None\<rparr>"

definition example_database :: story_database where
  "example_database =
     \<lparr>story_first = select_story [example_story 1],
      articles_all = (\<lambda>i. Returns \<lparr>success = True, results = Some [], error = None\<rparr>),
      bias_all = (\<lambda>i. Returns \<lparr>success = True, results = Some [], error = None\<rparr>)\<rparr>"

section \<open>Coverage of a story and \<open>POST /api/sources\<close>\<close>

text \<open>
  The tables of migrations/0001_initial.sql that coverage is about: \<open>sources\<close>
  (primary key \<open>id\<close>), \<open>articles\<close> with the columns coverage reads
  (\<open>story_id\<close> is nullable, \<open>source_id\<close> references \<open>sources\<close>) and
  \<open>story_coverage\<close>.
\<close>

record source_row =
  source_row_id :: int
  source_row_name :: string
  source_row_url :: string
  source_row_rss_url :: "string option"
  source_row_bias_classification :: string
  source_row_logo_url :: "string option"
  source_row_last_checked :: "string option"

record article_row =
  article_row_id :: int
  article_row_source_id :: int
  article_row_story_id :: "int option"

record coverage_row =
  story_id :: int
  row_bias_classification :: string
  row_article_count :: int

record database =
  sources :: "source_row list"
  articles :: "article_row list"
  story_coverage :: "coverage_row list"

text \<open>The articles assigned to a story, and the coverage rows stored for it.\<close>

definition articles_of :: "database \<Rightarrow> int \<Rightarrow> article_row list" where
  "articles_of db sid = filter (\<lambda>a. article_row_story_id a = Some sid) (articles db)"

definition stored_coverage :: "database \<Rightarrow> int \<Rightarrow> coverage_row list" where
  "stored_coverage db sid = filter (\<lambda>c. story_id c = sid) (story_coverage db)"

text \<open>The foreign key of \<open>articles.source_id\<close>.\<close>

definition foreign_key :: "database \<Rightarrow> bool" where
  "foreign_key db =
     (\<forall>a \<in> set (articles db).
        \<exists>s \<in> set (sources db). source_row_id s = article_row_source_id a)"

subsection \<open>\<open>POST /api/sources\<close> (the sources route, unnamed/part_004)\<close>

text \<open>
  The fields the handler reads from the body of the request, each a string;
  \<open>None\<close> is a field that is absent or \<open>null\<close>.
\<close>

record source_body =
  body_name :: "string option"
  body_url :: "string option"
  body_rss_url :: "string option"
  body_bias_classification :: "string option"
  body_logo_url :: "string option"

text \<open>\<open>!x\<close> for such a field: absent, or the empty string.\<close>

definition falsy :: "string option \<Rightarrow> bool" where
  "falsy x = (x = None \<or> x = Some [])"

text \<open>\<open>x || null\<close>.\<close>

definition or_null :: "string option \<Rightarrow> string option" where
  "or_null x = (if falsy x then None else x)"

text \<open>The body of a successful answer.\<close>

record source_posted =
  posted_success :: bool
  posted_message :: string
  posted_sourceId :: int

text \<open>
  The id that \<open>AUTOINCREMENT\<close> gives the next row: one more than the largest id of
  the table, no row being ever deleted.
\<close>

definition next_source_id :: "source_row list \<Rightarrow> int" where
  "next_source_id table = foldr max (map source_row_id table) 0 + 1"

text \<open>
  The handler on a bound database: the answer and the database after it. The source is
  looked up by its url; an existing source is updated, its bias classification
  included, and a new one is inserted. A statement that throws is not modelled.
\<close>

definition sources_POST :: "source_body \<Rightarrow> database option outcome \<Rightarrow> source_posted response \<times> database option outcome" where
  "sources_POST body ctx =
     (if falsy (body_name body) \<or> falsy (body_url body)
         \<or> falsy (body_bias_classification body)
      then (Json_error 400 ''Missing required fields'' None, ctx)
      else
        (case ctx of
           Throws msg \<Rightarrow> (Json_error 500 ''Failed to add/update source'' (Some msg), ctx)
         | Returns None \<Rightarrow> (Json_error 500 ''Database binding not found'' None, ctx)
         | Returns (Some db) \<Rightarrow>
             (case find (\<lambda>s. Some (source_row_url s) = body_url body) (sources db) of
                Some existingSource \<Rightarrow>
                  (Json \<lparr>posted_success = True, posted_message = ''Source updated'',
                         posted_sourceId = source_row_id existingSource\<rparr>,
                   Returns (Some (db\<lparr>sources :=
                     map (\<lambda>s. if source_row_id s = source_row_id existingSource
                               then s\<lparr>source_row_name := the (body_name body),
                                      source_row_rss_url := or_null (body_rss_url body),
                                      source_row_bias_classification :=
                                        the (body_bias_classification body),
                                      source_row_logo_url := or_null (body_logo_url body)\<rparr>
                               else s)
                       (sources db)\<rparr>)))
              | None \<Rightarrow>
                  (Json \<lparr>posted_success = True, posted_message = ''Source added'',
                         posted_sourceId = next_source_id (sources db)\<rparr>,
                   Returns (Some (db\<lparr>sources := sources db @
                     [\<lparr>source_row_id = next_source_id (sources db),
                       source_row_name = the (body_name body),
                       source_row_url = the (body_url body),
                       source_row_rss_url = or_null (body_rss_url body),
                       source_row_bias_classification = the (body_bias_classification body),
                       source_row_logo_url = or_null (body_logo_url body),
                       source_row_last_checked = None\<rparr>]\<rparr>))))))"


subsection \<open>The engine and the aggregator\<close>

text \<open>
  Modelled from the spec: the bias category of the owning source of an article, as the
  Coverage Aggregator reads it. The aggregator lives in backend_scripts/cluster_news.py
  and is not among the sources. Section 4.4: the new coverage of a story groups all
  articles with that story id by the bias category of their owning source and counts per
  category. An article is joined to its source through the primary key of
  \<open>sources\<close>.
\<close>

definition bias_of_article :: "database \<Rightarrow> article_row \<Rightarrow> string option" where
  "bias_of_article db a =
     map_option source_row_bias_classification
       (find (\<lambda>s. source_row_id s = article_row_source_id a) (sources db))"

text \<open>
  Modelled from the spec: the bias categories of the articles of a story, one per article
  (section 4.4, the grouping key of the Coverage Aggregator, absent from the sources).
\<close>

definition story_biases :: "database \<Rightarrow> int \<Rightarrow> string list" where
  "story_biases db sid = List.map_filter (bias_of_article db) (articles_of db sid)"

text \<open>
  Modelled from the spec: the recomputation of the coverage of a story from scratch
  (section 4.4 and the round-trip property of section 8; the aggregator is absent from
  the sources): one row per category represented, with the count of the story's articles
  of that category.
\<close>

definition recompute_coverage :: "database \<Rightarrow> int \<Rightarrow> coverage_row list" where
  "recompute_coverage db sid =
     map (\<lambda>b. \<lparr>story_id = sid, row_bias_classification = b,
                row_article_count = int (count_list (story_biases db sid) b)\<rparr>)
       (remdups (story_biases db sid))"

text \<open>
  Modelled from the spec: the write of the Coverage Aggregator for one story, which
  replaces the stored rows of the story by the recomputed ones (section 4.4: writes are
  idempotent, recomputing twice yields identical results).
\<close>

definition aggregate_story :: "database \<Rightarrow> int \<Rightarrow> database" where
  "aggregate_story db sid =
     db\<lparr>story_coverage :=
          filter (\<lambda>c. story_id c \<noteq> sid) (story_coverage db) @ recompute_coverage db sid\<rparr>"

text \<open>
  Modelled from the spec: the write of the Clustering Engine, which lives in
  backend_scripts/cluster_news.py and is not among the sources. Sections 4.3 and 5: an
  article is assigned to a story once, the write being conditioned on its story id still
  being null.
\<close>

definition assign_article :: "int \<times> int \<Rightarrow> database \<Rightarrow> database" where
  "assign_article assignment db =
     db\<lparr>articles :=
          map (\<lambda>a. if article_row_id a = fst assignment \<and> article_row_story_id a = None
                    then a\<lparr>article_row_story_id := Some (snd assignment)\<rparr> else a)
            (articles db)\<rparr>"

text \<open>
  Modelled from the spec: one run of the engine followed by the Coverage Aggregator
  (section 4.4: after an engine run, recompute the coverage of every story touched in the
  run). The run is given by its assignments of article ids to story ids.
\<close>

definition cluster_run :: "(int \<times> int) list \<Rightarrow> database \<Rightarrow> database" where
  "cluster_run assignments db =
     fold (\<lambda>sid d. aggregate_story d sid) (map snd assignments)
       (fold assign_article assignments db)"


text \<open>
  Modelled from the spec: what changes the tables. Section 6: ingestion hands over
  articles with a null story id whose source exists; section 5: the story id of an
  article and the coverage rows are written by the engine and the aggregator only. The
  third event is a request to the sources route above, which writes \<open>sources\<close>.
\<close>

datatype event = Ingest article_row | Cluster_run "(int \<times> int) list" | Post_source source_body

text \<open>
  Modelled from the spec: the effect of one event (sections 4.3, 4.4 and 6);
  \<open>None\<close> when ingestion would hand over an article that the interface of
  section 6 does not admit. A request to the sources route has the effect of its
  handler on the bound database.
\<close>

fun step :: "event \<Rightarrow> database \<Rightarrow> database option" where
  "step (Ingest a) db =
     (if article_row_story_id a = None
         \<and> (\<exists>s \<in> set (sources db). source_row_id s = article_row_source_id a)
      then Some (db\<lparr>articles := articles db @ [a]\<rparr>) else None)"
| "step (Cluster_run assignments) db = Some (cluster_run assignments db)"
| "step (Post_source body) db =
     (case snd (sources_POST body (Returns (Some db))) of
        Returns after \<Rightarrow> after
      | Throws msg \<Rightarrow> None)"






section \<open>Grouping the rows\<close>


lemma group_rows_snoc: "group_rows (rows @ [r]) = group_row r (group_rows rows)"
  by (simp add: group_rows_def)

lemma group_rows_dup_snoc: "group_rows_dup (rows @ [r]) = group_row_dup r (group_rows_dup rows)"
  by (simp add: group_rows_dup_def)

lemma map_of_group_row_other:
  "sid \<noteq> id' r \<Longrightarrow> map_of (group_row r m) sid = map_of m sid"
  by (simp add: group_row_def Let_def map_of_map_entry AList.update_conv')

lemma map_of_group_row_same:
  "\<exists>d. map_of (group_row r m) (id' r) = Some d \<and> id' (story d) = 
      (case map_of m (id' r) of None \<Rightarrow> id' r | Some d0 \<Rightarrow> id' (story d0))
    \<and> total' d = (case map_of m (id' r) of None \<Rightarrow> 0 | Some d0 \<Rightarrow> total' d0) + article_count r"
  by (auto simp add: group_row_def Let_def map_of_map_entry AList.update_conv' split: option.splits)

lemma keys_group_row: "fst ` set (group_row r m) = insert (id' r) (fst ` set m)"
  by (auto simp add: group_row_def Let_def AList.dom_map_entry AList.dom_update map_of_eq_None_iff)

lemma distinct_group_row: "distinct (map fst m) \<Longrightarrow> distinct (map fst (group_row r m))"
  by (simp add: group_row_def Let_def AList.distinct_map_entry AList.distinct_update)

lemma distinct_group_rows: "distinct (map fst (group_rows rows))"
  by (induction rows rule: rev_induct) (simp_all add: group_rows_snoc distinct_group_row group_rows_def)

lemma keys_group_rows: "fst ` set (group_rows rows) = id' ` set rows"
  by (induction rows rule: rev_induct) (simp_all add: group_rows_snoc keys_group_row group_rows_def)

lemma group_rows_entry:
  "map_of (group_rows rows) sid = Some d \<Longrightarrow> id' (story d) = sid \<and> total' d = story_total sid rows"
proof (induction rows arbitrary: d rule: rev_induct)
  case Nil
  then show ?case by (simp add: group_rows_def)
next
  case (snoc r rows)
  show ?case
  proof (cases "sid = id' r")
    case False
    with snoc show ?thesis
      by (simp add: group_rows_snoc map_of_group_row_other story_total_def rows_of_def)
  next
    case True
    obtain e where e: "map_of (group_row r (group_rows rows)) (id' r) = Some e"
      "id' (story e) = (case map_of (group_rows rows) (id' r) of None \<Rightarrow> id' r | Some d0 \<Rightarrow> id' (story d0))"
      "total' e = (case map_of (group_rows rows) (id' r) of None \<Rightarrow> 0 | Some d0 \<Rightarrow> total' d0) + article_count r"
      using map_of_group_row_same by blast
    have de: "d = e" using snoc.prems e(1) True by (simp add: group_rows_snoc)
    show ?thesis
    proof (cases "map_of (group_rows rows) (id' r)")
      case None
      then have "id' r \<notin> fst ` set (group_rows rows)" by (simp add: map_of_eq_None_iff)
      then have "rows_of (id' r) rows = []"
        by (auto simp add: keys_group_rows rows_of_def filter_empty_conv image_iff)
      with None True e de show ?thesis
        by (simp add: story_total_def rows_of_def)
    next
      case (Some d0)
      with snoc.IH[of d0] True e de show ?thesis
        by (simp add: story_total_def rows_of_def)
    qed
  qed
qed


lemma map_of_group_row_dup_other:
  "sid \<noteq> id' r \<Longrightarrow> map_of (group_row_dup r m) sid = map_of m sid"
  by (simp add: group_row_dup_def Let_def map_of_map_entry AList.update_conv')

lemma map_of_group_row_dup_same:
  "\<exists>d. map_of (group_row_dup r m) (id' r) = Some d \<and> id' (story d) = 
      (case map_of m (id' r) of None \<Rightarrow> id' r | Some d0 \<Rightarrow> id' (story d0))
    \<and> total' d = (case map_of m (id' r) of None \<Rightarrow> 0 | Some d0 \<Rightarrow> total' d0) + article_count r"
  by (auto simp add: group_row_dup_def Let_def map_of_map_entry AList.update_conv' split: option.splits)

lemma keys_group_row_dup: "fst ` set (group_row_dup r m) = insert (id' r) (fst ` set m)"
  by (auto simp add: group_row_dup_def Let_def AList.dom_map_entry AList.dom_update map_of_eq_None_iff)

lemma distinct_group_row_dup: "distinct (map fst m) \<Longrightarrow> distinct (map fst (group_row_dup r m))"
  by (simp add: group_row_dup_def Let_def AList.distinct_map_entry AList.distinct_update)

lemma distinct_group_rows_dup: "distinct (map fst (group_rows_dup rows))"
  by (induction rows rule: rev_induct)
     (simp_all add: group_rows_dup_snoc distinct_group_row_dup group_rows_dup_def)

lemma keys_group_rows_dup: "fst ` set (group_rows_dup rows) = id' ` set rows"
  by (induction rows rule: rev_induct)
     (simp_all add: group_rows_dup_snoc keys_group_row_dup group_rows_dup_def)

lemma group_rows_dup_entry:
  "map_of (group_rows_dup rows) sid = Some d \<Longrightarrow> id' (story d) = sid \<and> total' d = story_total sid rows"
proof (induction rows arbitrary: d rule: rev_induct)
  case Nil
  then show ?case by (simp add: group_rows_dup_def)
next
  case (snoc r rows)
  show ?case
  proof (cases "sid = id' r")
    case False
    with snoc show ?thesis
      by (simp add: group_rows_dup_snoc map_of_group_row_dup_other story_total_def rows_of_def)
  next
    case True
    obtain e where e: "map_of (group_row_dup r (group_rows_dup rows)) (id' r) = Some e"
      "id' (story e) = (case map_of (group_rows_dup rows) (id' r) of None \<Rightarrow> id' r | Some d0 \<Rightarrow> id' (story d0))"
      "total' e = (case map_of (group_rows_dup rows) (id' r) of None \<Rightarrow> 0 | Some d0 \<Rightarrow> total' d0) + article_count r"
      using map_of_group_row_dup_same by blast
    have de: "d = e" using snoc.prems e(1) True by (simp add: group_rows_dup_snoc)
    show ?thesis
    proof (cases "map_of (group_rows_dup rows) (id' r)")
      case None
      then have "id' r \<notin> fst ` set (group_rows_dup rows)" by (simp add: map_of_eq_None_iff)
      then have "rows_of (id' r) rows = []"
        by (auto simp add: keys_group_rows_dup rows_of_def filter_empty_conv image_iff)
      with None True e de show ?thesis
        by (simp add: story_total_def rows_of_def)
    next
      case (Some d0)
      with snoc.IH[of d0] True e de show ?thesis
        by (simp add: story_total_def rows_of_def)
    qed
  qed
qed

lemma set_js_insert: "set (js_insert cmp x xs) = insert x (set xs)"
  by (induction xs) auto

lemma set_js_sort: "set (js_sort cmp xs) = set xs"
  by (induction xs) (simp_all add: js_sort_def set_js_insert)

lemma length_js_insert: "length (js_insert cmp x xs) = Suc (length xs)"
  by (induction xs) auto

lemma length_js_sort: "length (js_sort cmp xs) = length xs"
  by (induction xs) (simp_all add: js_sort_def length_js_insert)

lemma set_slice0: "set (slice0 xs l) \<subseteq> set xs"
  by (auto simp add: slice0_def split: option.splits dest: in_set_takeD)

lemma in_identify_blindspots:
  "b \<in> set (identify_blindspots t m) \<longleftrightarrow> (\<exists>i d. (i, d) \<in> set m \<and> blindspot_of t d = Some b)"
  by (force simp add: identify_blindspots_def List.map_filter_def)

lemma in_identify_blindspots_dup:
  "b \<in> set (identify_blindspots_dup t m) \<longleftrightarrow> (\<exists>i d. (i, d) \<in> set m \<and> blindspot_of_dup t d = Some b)"
  by (force simp add: identify_blindspots_dup_def List.map_filter_def)

lemma blindspot_of_dup_eq: "blindspot_of_dup t d = blindspot_of t d"
  by (simp add: blindspot_of_dup_def blindspot_of_def)

lemma blindspot_of_SomeD:
  assumes "blindspot_of t d = Some b"
  shows "\<not> total' d < 3" and "id' b = id' (story d)" and "total_articles b = total' d"
    and "dominant_percentage b = dominant_percentage_of d"
    and "js_ge (dominant_percentage_of d) t"
    and "dominant_bias b = fst (find_dominant (coverage d))"
    and "bias_distribution b = coverage d"
  using assms
  by (auto simp add: blindspot_of_def dominant_percentage_of_def Let_def split: if_splits prod.splits)

lemma blindspot_of_Some_iff:
  "(\<exists>b. blindspot_of t d = Some b) \<longleftrightarrow> \<not> total' d < 3 \<and> js_ge (dominant_percentage_of d) t"
  by (auto simp add: blindspot_of_def dominant_percentage_of_def Let_def split: if_splits prod.splits)

lemma dominant_percentage_of_Finite:
  "\<not> total' d < 3 \<Longrightarrow> dominant_percentage_of d =
     Finite (of_int (snd (find_dominant (coverage d))) / of_int (total' d))"
  by (simp add: dominant_percentage_of_def js_div_def)

lemma body_blindspots_GET:
  "results res = Some rows \<Longrightarrow>
   set (response_body (blindspots_GET req (Returns (Some (Returns res)))))
     \<subseteq> set (identify_blindspots (parseFloat (param_or (threshold_param req) ''0.7'')) (group_rows rows))"
  using set_slice0 [of "js_sort by_dominant_percentage
      (identify_blindspots (parseFloat (param_or (threshold_param req) ''0.7'')) (group_rows rows))"
      "parseInt (param_or (limit_param req) ''10'')"]
  by (auto simp add: blindspots_GET_def response_body_def detect_blindspots_def Let_def set_js_sort)

lemma body_blindspots_GET_dup:
  "results res = Some rows \<Longrightarrow>
   set (response_body (blindspots_GET_dup req (Returns (Some (Returns res)))))
     \<subseteq> set (identify_blindspots_dup (parseFloat (param_or (threshold_param req) ''0.7'')) (group_rows_dup rows))"
  using set_slice0 [of "js_sort by_dominant_percentage
      (identify_blindspots_dup (parseFloat (param_or (threshold_param req) ''0.7'')) (group_rows_dup rows))"
      "parseInt (param_or (limit_param req) ''10'')"]
  by (auto simp add: blindspots_GET_dup_def response_body_def detect_blindspots_dup_def Let_def set_js_sort)

lemma identified_total:
  assumes "b \<in> set (identify_blindspots t (group_rows rows))"
  shows "3 \<le> story_total (id' b) rows"
proof -
  from assms obtain i d where m: "(i, d) \<in> set (group_rows rows)" and b: "blindspot_of t d = Some b"
    by (auto simp add: in_identify_blindspots)
  from m have "map_of (group_rows rows) i = Some d"
    by (simp add: distinct_group_rows)
  then have "id' (story d) = i" "total' d = story_total i rows"
    using group_rows_entry by blast+
  with blindspot_of_SomeD(1,2)[OF b] show ?thesis by simp
qed

lemma identified_dup_total:
  assumes "b \<in> set (identify_blindspots_dup t (group_rows_dup rows))"
  shows "3 \<le> story_total (id' b) rows"
proof -
  from assms obtain i d where m: "(i, d) \<in> set (group_rows_dup rows)" and b: "blindspot_of t d = Some b"
    by (auto simp add: in_identify_blindspots_dup blindspot_of_dup_eq)
  from m have "map_of (group_rows_dup rows) i = Some d"
    by (simp add: distinct_group_rows_dup)
  then have "id' (story d) = i" "total' d = story_total i rows"
    using group_rows_dup_entry by blast+
  with blindspot_of_SomeD(1,2)[OF b] show ?thesis by simp
qed

section \<open>The kept set\<close>


lemma group_rows_keyed:
  assumes "(sid, d) \<in> set (group_rows rows)"
  shows "id' (story d) = sid" and "total' d = story_total sid rows"
  using assms group_rows_entry [of rows sid d] by (simp_all add: distinct_group_rows)

lemma group_rows_dup_keyed:
  assumes "(sid, d) \<in> set (group_rows_dup rows)"
  shows "id' (story d) = sid" and "total' d = story_total sid rows"
  using assms group_rows_dup_entry [of rows sid d] by (simp_all add: distinct_group_rows_dup)

lemma identify_blindspots_dup_eq: "identify_blindspots_dup t m = identify_blindspots t m"
  by (simp add: identify_blindspots_dup_def identify_blindspots_def blindspot_of_dup_eq)

lemma kept_iff:
  assumes dist: "distinct (map fst m)" and key: "\<And>i e. (i, e) \<in> set m \<Longrightarrow> id' (story e) = i"
    and mem: "(sid, d) \<in> set m" and ge3: "\<not> total' d < 3"
  shows "sid \<in> id' ` set (identify_blindspots t m) \<longleftrightarrow> js_ge (dominant_percentage_of d) t"
proof
  assume "sid \<in> id' ` set (identify_blindspots t m)"
  then obtain b i e where b: "id' b = sid" "(i, e) \<in> set m" "blindspot_of t e = Some b"
    by (auto simp add: in_identify_blindspots)
  from blindspot_of_SomeD(2)[OF b(3)] key[OF b(2)] b(1) have "i = sid" by simp
  with dist mem b(2) have "e = d" by (metis eq_key_imp_eq_value)
  with blindspot_of_SomeD(5)[OF b(3)] show "js_ge (dominant_percentage_of d) t" by simp
next
  assume "js_ge (dominant_percentage_of d) t"
  with ge3 obtain b where b: "blindspot_of t d = Some b"
    using blindspot_of_Some_iff by blast
  from blindspot_of_SomeD(2)[OF b] key[OF mem] have "id' b = sid" by simp
  moreover from b mem have "b \<in> set (identify_blindspots t m)"
    by (auto simp add: in_identify_blindspots)
  ultimately show "sid \<in> id' ` set (identify_blindspots t m)" by blast
qed

lemma js_ge_refl_Finite: "js_ge (Finite x) (Finite x)"
  by simp

lemma parseFloat_default: "parseFloat (param_or None ''0.7'') = Finite (7 / 10)"
  by (simp add: param_or_def parseFloat_def is_space_def is_digit_def digits_value_def
      digit_value_def scale10_def)

lemma parseInt_default: "parseInt (param_or None ''10'') = Some 10"
  by (simp add: param_or_def parseInt_def is_space_def is_digit_def digits_value_def digit_value_def)

lemma group_rows_example1:
  "group_rows [example_row 1 ''Gov/Official'' 7, example_row 1 ''Western'' 3]
     = [(1, example_data 1 [(''Gov/Official'', Number 7), (''Western'', Number 3)] 10)]"
  by (simp add: group_rows_def group_row_def object_set_def example_row_def example_data_def)

lemma find_dominant_example1:
  "find_dominant [(''Gov/Official'', Number 7), (''Western'', Number 3)] = (''Gov/Official'', 7)"
  by (simp add: find_dominant_def dominant_step_def object_entries_def is_array_index_def is_digit_def)

lemma detect_example1:
  "detect_blindspots (Some 10) (Finite 0)
     [example_row 1 ''Gov/Official'' 7, example_row 1 ''Western'' 3]
   = [example_blindspot 1 [(''Gov/Official'', Number 7), (''Western'', Number 3)] 10 ''Gov/Official'' (7 / 10)]"
  by (simp add: detect_blindspots_def group_rows_example1 identify_blindspots_def
      blindspot_of_def example_data_def find_dominant_example1 js_div_def js_sort_def
      slice0_def example_blindspot_def)

section \<open>Sorting and limiting\<close>


lemma js_ge_trans: "js_ge a b \<Longrightarrow> js_ge b c \<Longrightarrow> js_ge a c"
  by (cases a; cases b; cases c) simp_all

lemma js_insert_insort_key:
  assumes "\<exists>q. dominant_percentage x = Finite q"
    and "\<forall>y \<in> set ys. \<exists>q. dominant_percentage y = Finite q"
  shows "js_insert by_dominant_percentage x ys = insort_key descending_key x ys"
  using assms
  by (induction ys) (auto simp add: by_dominant_percentage_def descending_key_def finite_value_def)

lemma js_sort_sort_key:
  assumes "\<forall>y \<in> set xs. \<exists>q. dominant_percentage y = Finite q"
  shows "js_sort by_dominant_percentage xs = sort_key descending_key xs"
  using assms
proof (induction xs)
  case Nil
  then show ?case by (simp add: js_sort_def)
next
  case (Cons x xs)
  then have "js_sort by_dominant_percentage xs = sort_key descending_key xs" by simp
  moreover have "js_sort by_dominant_percentage (x # xs)
      = js_insert by_dominant_percentage x (js_sort by_dominant_percentage xs)"
    by (simp add: js_sort_def)
  moreover have "js_insert by_dominant_percentage x (sort_key descending_key xs)
      = insort_key descending_key x (sort_key descending_key xs)"
    using Cons.prems by (intro js_insert_insort_key) simp_all
  ultimately show ?case by simp
qed

lemma identified_finite:
  "\<forall>b \<in> set (identify_blindspots t m). \<exists>q. dominant_percentage b = Finite q"
proof
  fix b assume "b \<in> set (identify_blindspots t m)"
  then obtain i d where "blindspot_of t d = Some b"
    by (auto simp add: in_identify_blindspots)
  from blindspot_of_SomeD(1,4)[OF this] show "\<exists>q. dominant_percentage b = Finite q"
    by (simp add: dominant_percentage_of_Finite)
qed

lemma descending_sort_key:
  assumes "\<forall>y \<in> set xs. \<exists>q. dominant_percentage y = Finite q"
  shows "descending (map dominant_percentage (sort_key descending_key xs))"
proof -
  have "sorted (map descending_key (sort_key descending_key xs))"
    by (rule sorted_sort_key)
  then have "sorted_wrt (\<lambda>a b. descending_key a \<le> descending_key b) (sort_key descending_key xs)"
    by (simp add: sorted_wrt_map)
  then have "sorted_wrt (\<lambda>a b. js_ge (dominant_percentage a) (dominant_percentage b))
      (sort_key descending_key xs)"
  proof (rule sorted_wrt_mono_rel [rotated])
    fix a b
    assume "a \<in> set (sort_key descending_key xs)" "b \<in> set (sort_key descending_key xs)"
      "descending_key a \<le> descending_key b"
    moreover from this assms obtain p q
      where "dominant_percentage a = Finite p" "dominant_percentage b = Finite q"
      by (metis set_sort)
    ultimately show "js_ge (dominant_percentage a) (dominant_percentage b)"
      by (simp add: descending_key_def finite_value_def)
  qed
  then show ?thesis by (simp add: descending_def sorted_wrt_map)
qed

lemma descending_take: "descending ps \<Longrightarrow> descending (take n ps)"
  by (simp add: descending_def sorted_wrt_take)

lemma slice0_take: "\<exists>n. slice0 xs l = take n xs"
  by (auto simp add: slice0_def split: option.splits)

lemma descending_detect:
  "descending (map dominant_percentage (detect_blindspots l t rows))"
proof -
  let ?K = "identify_blindspots t (group_rows rows)"
  obtain n where "detect_blindspots l t rows = take n (js_sort by_dominant_percentage ?K)"
    using slice0_take by (auto simp add: detect_blindspots_def)
  then have "map dominant_percentage (detect_blindspots l t rows)
      = take n (map dominant_percentage (sort_key descending_key ?K))"
    by (simp add: js_sort_sort_key [OF identified_finite] take_map)
  then show ?thesis
    using descending_take [OF descending_sort_key [OF identified_finite]] by simp
qed

lemma length_slice0:
  "length (slice0 xs l) =
     (case l of None \<Rightarrow> 0
      | Some n \<Rightarrow> if n < 0 then length xs - nat (- n) else min (nat n) (length xs))"
  by (auto simp add: slice0_def split: option.splits)

lemma length_detect:
  "length (detect_blindspots l t rows) =
     (case l of None \<Rightarrow> 0
      | Some n \<Rightarrow> if n < 0 then length (identify_blindspots t (group_rows rows)) - nat (- n)
                  else min (nat n) (length (identify_blindspots t (group_rows rows))))"
  by (simp add: detect_blindspots_def length_slice0 length_js_sort split: option.splits)

lemma body_cases:
  "response_body (blindspots_GET req ctx) = []
   \<or> (\<exists>rows. response_body (blindspots_GET req ctx)
        = detect_blindspots (parseInt (param_or (limit_param req) ''10''))
            (parseFloat (param_or (threshold_param req) ''0.7'')) rows)"
  by (auto simp add: blindspots_GET_def response_body_def Let_def
      split: outcome.splits option.splits)

lemma detect_blindspots_Nil: "detect_blindspots l t [] = []"
  by (simp add: detect_blindspots_def group_rows_def identify_blindspots_def
      List.map_filter_simps js_sort_def slice0_def split: option.splits)

lemma detect_blindspots_dup_Nil: "detect_blindspots_dup l t [] = []"
  by (simp add: detect_blindspots_dup_def group_rows_dup_def identify_blindspots_dup_def
      List.map_filter_simps js_sort_def slice0_def split: option.splits)

lemma blindspots_GET_rows:
  "results res = Some rows \<Longrightarrow>
   response_body (blindspots_GET req (Returns (Some (Returns res))))
     = detect_blindspots (parseInt (param_or (limit_param req) ''10''))
         (parseFloat (param_or (threshold_param req) ''0.7'')) rows"
  by (simp add: blindspots_GET_def response_body_def Let_def detect_blindspots_Nil)

lemma blindspots_GET_dup_rows:
  "results res = Some rows \<Longrightarrow> success res \<Longrightarrow>
   response_body (blindspots_GET_dup req (Returns (Some (Returns res))))
     = detect_blindspots_dup (parseInt (param_or (limit_param req) ''10''))
         (parseFloat (param_or (threshold_param req) ''0.7'')) rows"
  by (simp add: blindspots_GET_dup_def response_body_def Let_def detect_blindspots_dup_Nil)

lemma slice0_whole: "int (length xs) \<le> n \<Longrightarrow> slice0 xs (Some n) = xs"
  by (simp add: slice0_def)

lemma set_detect_blindspots:
  "set (detect_blindspots l t rows) \<subseteq> set (identify_blindspots t (group_rows rows))"
  using set_slice0 [of "js_sort by_dominant_percentage (identify_blindspots t (group_rows rows))" l]
  by (simp add: detect_blindspots_def set_js_sort)

lemma set_detect_blindspots_dup:
  "set (detect_blindspots_dup l t rows) \<subseteq> set (identify_blindspots t (group_rows_dup rows))"
  using set_slice0 [of "js_sort by_dominant_percentage (identify_blindspots t (group_rows_dup rows))" l]
  by (simp add: detect_blindspots_dup_def set_js_sort identify_blindspots_dup_eq)

lemma set_detect_blindspots_whole:
  "int (length (identify_blindspots t (group_rows rows))) \<le> n \<Longrightarrow>
   set (detect_blindspots (Some n) t rows) = set (identify_blindspots t (group_rows rows))"
  by (simp add: detect_blindspots_def slice0_whole length_js_sort set_js_sort)

lemma set_detect_blindspots_dup_whole:
  "int (length (identify_blindspots t (group_rows_dup rows))) \<le> n \<Longrightarrow>
   set (detect_blindspots_dup (Some n) t rows) = set (identify_blindspots t (group_rows_dup rows))"
  by (simp add: detect_blindspots_dup_def slice0_whole length_js_sort set_js_sort
      identify_blindspots_dup_eq)

lemma kept_group_rows:
  assumes "(sid, d) \<in> set (group_rows rows)" and "\<not> story_total sid rows < 3"
  shows "sid \<in> id' ` set (identify_blindspots t (group_rows rows))
           \<longleftrightarrow> js_ge (dominant_percentage_of d) t"
proof -
  have "\<not> total' d < 3" using assms by (simp add: group_rows_keyed(2))
  with kept_iff [OF distinct_group_rows _ assms(1)] group_rows_keyed(1)
  show ?thesis by blast
qed

lemma kept_group_rows_dup:
  assumes "(sid, d) \<in> set (group_rows_dup rows)" and "\<not> story_total sid rows < 3"
  shows "sid \<in> id' ` set (identify_blindspots t (group_rows_dup rows))
           \<longleftrightarrow> js_ge (dominant_percentage_of d) t"
proof -
  have "\<not> total' d < 3" using assms by (simp add: group_rows_dup_keyed(2))
  with kept_iff [OF distinct_group_rows_dup _ assms(1)] group_rows_dup_keyed(1)
  show ?thesis by blast
qed

section \<open>Runs of the handlers on the scenarios\<close>


lemmas evaluation =
  blindspots_GET_def blindspots_GET_dup_def detect_blindspots_def detect_blindspots_dup_def
  group_rows_def group_row_def group_rows_dup_def group_row_dup_def
  object_set_def or_zero_plus_def inherited_property_def object_prototype_functions_def
  identify_blindspots_def identify_blindspots_dup_def blindspot_of_def blindspot_of_dup_def
  find_dominant_def dominant_step_def object_entries_def is_array_index_def is_digit_def js_div_def js_sort_def
  by_dominant_percentage_def slice0_def parseInt_def parseFloat_def param_or_def is_space_def
  digits_value_def digit_value_def scale10_def returning_def response_body_def
  example_row_def example_blindspot_def example_data_def no_parameters_def Let_def

lemma two_stories_limit_one:
  "response_body (blindspots_GET \<lparr>limit_param = Some ''1'', threshold_param = Some ''0.5''\<rparr>
     (returning [example_row 1 ''Gov/Official'' 2, example_row 1 ''Western'' 1,
                 example_row 2 ''Western'' 4]))
   = [example_blindspot 2 [(''Western'', Number 4)] 4 ''Western'' 1]"
  by (simp add: evaluation)

lemma two_stories_no_limit:
  "response_body (blindspots_GET \<lparr>limit_param = None, threshold_param = Some ''0.5''\<rparr>
     (returning [example_row 1 ''Gov/Official'' 2, example_row 1 ''Western'' 1,
                 example_row 2 ''Western'' 4]))
   = [example_blindspot 2 [(''Western'', Number 4)] 4 ''Western'' 1,
      example_blindspot 1 [(''Gov/Official'', Number 2), (''Western'', Number 1)] 3 ''Gov/Official'' (2 / 3)]"
  by (simp add: evaluation)

lemma parseInt_one: "parseInt (param_or (Some ''1'') ''10'') = Some 1"
  by (simp add: evaluation)

section \<open>Raising the threshold\<close>

lemma blindspot_of_mono:
  assumes "js_le t1 t2"
  shows "blindspot_of t2 d =
     (case blindspot_of t1 d of None \<Rightarrow> None
      | Some b \<Rightarrow> if js_ge (dominant_percentage b) t2 then Some b else None)"
proof -
  obtain bias n where dom: "find_dominant (coverage d) = (bias, n)"
    by (cases "find_dominant (coverage d)")
  have "js_ge (js_div n (total' d)) t1" if "js_ge (js_div n (total' d)) t2"
    using that assms by (metis js_le_def js_ge_trans)
  then show ?thesis
    by (auto simp add: blindspot_of_def dom Let_def)
qed

lemma identify_blindspots_mono:
  assumes "js_le t1 t2"
  shows "identify_blindspots t2 m
     = filter (\<lambda>b. js_ge (dominant_percentage b) t2) (identify_blindspots t1 m)"
proof (induction m)
  case Nil
  then show ?case by (simp add: identify_blindspots_def)
next
  case (Cons e m)
  obtain i d where e: "e = (i, d)" by (cases e)
  from Cons show ?case
    by (simp add: identify_blindspots_def e blindspot_of_mono [OF assms, of d]
        split: option.splits)
qed

lemma filter_takeWhile_sorted:
  assumes "sorted_wrt R xs" and "\<And>a b. R a b \<Longrightarrow> P b \<Longrightarrow> P a"
  shows "filter P xs = takeWhile P xs"
  using assms(1)
proof (induction xs)
  case Nil
  then show ?case by simp
next
  case (Cons x xs)
  show ?case
  proof (cases "P x")
    case True
    with Cons show ?thesis by simp
  next
    case False
    have "\<not> P z" if "z \<in> set xs" for z
      using Cons.prems that assms(2) False by auto
    then have "filter P xs = []" by (simp add: filter_empty_conv)
    with False show ?thesis by simp
  qed
qed

lemma slice0_negative:
  "e < 0 \<Longrightarrow> slice0 xs (Some e) = take (length xs - nat (- e)) xs"
proof -
  assume "e < 0"
  then have "nat (max (int (length xs) + e) 0) = length xs - nat (- e)"
    by arith
  with \<open>e < 0\<close> show ?thesis by (simp add: slice0_def)
qed

lemma slice0_nonnegative:
  "0 \<le> e \<Longrightarrow> slice0 xs (Some e) = take (nat e) xs"
proof -
  assume "0 \<le> e"
  then have "take (nat (min e (int (length xs)))) xs = take (nat e) xs"
    by (cases "e \<le> int (length xs)") (simp_all add: min_def)
  with \<open>0 \<le> e\<close> show ?thesis by (simp add: slice0_def)
qed

lemma slice0_prefix:
  "\<exists>j. slice0 (take k xs) l = take j (slice0 xs l)"
proof (cases l)
  case None
  then show ?thesis by (simp add: slice0_def)
next
  case (Some e)
  show ?thesis
  proof (cases "e < 0")
    case True
    have "slice0 (take k xs) l = take (min k (length xs) - nat (- e)) (slice0 xs l)"
      using True Some by (simp add: slice0_negative take_take min_def)
    then show ?thesis by blast
  next
    case False
    have "slice0 (take k xs) l = take k (slice0 xs l)"
      using False Some by (simp add: slice0_nonnegative take_take min.commute)
    then show ?thesis by blast
  qed
qed

lemma detect_blindspots_mono:
  assumes "js_le t1 t2"
  shows "\<exists>j. detect_blindspots l t2 rows = take j (detect_blindspots l t1 rows)"
proof -
  let ?K1 = "identify_blindspots t1 (group_rows rows)"
  let ?K2 = "identify_blindspots t2 (group_rows rows)"
  let ?P = "\<lambda>b. js_ge (dominant_percentage b) t2"
  let ?S1 = "js_sort by_dominant_percentage ?K1"
  have K2: "?K2 = filter ?P ?K1"
    by (rule identify_blindspots_mono [OF assms])
  have S1: "?S1 = sort_key descending_key ?K1"
    by (rule js_sort_sort_key [OF identified_finite])
  have "js_sort by_dominant_percentage ?K2 = sort_key descending_key ?K2"
    by (rule js_sort_sort_key [OF identified_finite])
  also have "\<dots> = filter ?P ?S1"
    by (simp add: K2 S1 filter_sort)
  finally have S2: "js_sort by_dominant_percentage ?K2 = filter ?P ?S1" .
  have "descending (map dominant_percentage ?S1)"
    using descending_sort_key [OF identified_finite] S1 by simp
  then have "sorted_wrt (\<lambda>a b. js_ge (dominant_percentage a) (dominant_percentage b)) ?S1"
    by (simp add: descending_def sorted_wrt_map)
  then have "filter ?P ?S1 = takeWhile ?P ?S1"
    by (rule filter_takeWhile_sorted) (rule js_ge_trans)
  then have "js_sort by_dominant_percentage ?K2 = take (length (takeWhile ?P ?S1)) ?S1"
    using S2 takeWhile_eq_take by metis
  then show ?thesis
    using slice0_prefix [of "length (takeWhile ?P ?S1)" ?S1 l]
    by (simp add: detect_blindspots_def)
qed
section \<open>The dominant category\<close>


lemma set_object_entries: "set (object_entries cov) = set cov"
  by (auto simp add: object_entries_def)

lemma object_entries_plain:
  "\<forall>e \<in> set cov. \<not> is_array_index (fst e) \<Longrightarrow> object_entries cov = cov"
  by (simp add: object_entries_def filter_empty_conv)

lemma dominant_step_number:
  "dominant_step (b0, c0) (k, Number v) = (if v > c0 then (k, v) else (b0, c0))"
  by (simp add: dominant_step_def)

lemma dominant_step_text: "dominant_step (b0, c0) (k, Text i s) = (b0, c0)"
  by (simp add: dominant_step_def)

lemma dominant_foldl_max:
  "foldl dominant_step (b0, c0) es = (b, c) \<Longrightarrow>
   c0 \<le> c \<and> (\<forall>k v. (k, Number v) \<in> set es \<longrightarrow> v \<le> c)"
proof (induction es arbitrary: b0 c0)
  case Nil
  then show ?case by simp
next
  case (Cons e es)
  obtain k x where e: "e = (k, x)" by (cases e)
  show ?case
  proof (cases x)
    case (Text i s)
    with Cons.prems e have "foldl dominant_step (b0, c0) es = (b, c)"
      by (simp add: dominant_step_text)
    from Cons.IH [OF this] Text e show ?thesis by simp
  next
    case (Number v)
    show ?thesis
    proof (cases "v > c0")
      case True
      with Cons.prems e Number have "foldl dominant_step (k, v) es = (b, c)"
        by (simp add: dominant_step_number)
      from Cons.IH [OF this] True e Number show ?thesis by auto
    next
      case False
      with Cons.prems e Number have "foldl dominant_step (b0, c0) es = (b, c)"
        by (simp add: dominant_step_number)
      from Cons.IH [OF this] False e Number show ?thesis by auto
    qed
  qed
qed

lemma dominant_foldl_same:
  "foldl dominant_step (b0, c0) es = (b, c) \<Longrightarrow> \<not> c0 < c \<Longrightarrow> (b, c) = (b0, c0)"
proof (induction es arbitrary: b0 c0)
  case Nil
  then show ?case by simp
next
  case (Cons e es)
  obtain k x where e: "e = (k, x)" by (cases e)
  show ?case
  proof (cases x)
    case (Text i s)
    with Cons.prems e have "foldl dominant_step (b0, c0) es = (b, c)"
      by (simp add: dominant_step_text)
    from Cons.IH [OF this Cons.prems(2)] show ?thesis .
  next
    case (Number v)
    show ?thesis
    proof (cases "v > c0")
      case True
      with Cons.prems e Number have run: "foldl dominant_step (k, v) es = (b, c)"
        by (simp add: dominant_step_number)
      from dominant_foldl_max [OF run] True Cons.prems(2) show ?thesis by simp
    next
      case False
      with Cons.prems e Number have "foldl dominant_step (b0, c0) es = (b, c)"
        by (simp add: dominant_step_number)
      from Cons.IH [OF this Cons.prems(2)] show ?thesis .
    qed
  qed
qed

lemma dominant_foldl_first:
  "foldl dominant_step (b0, c0) es = (b, c) \<Longrightarrow> c0 < c \<Longrightarrow>
   \<exists>pre post. es = pre @ (b, Number c) # post \<and> (\<forall>k v. (k, Number v) \<in> set pre \<longrightarrow> v < c)"
proof (induction es arbitrary: b0 c0)
  case Nil
  then show ?case by simp
next
  case (Cons e es)
  obtain k x where e: "e = (k, x)" by (cases e)
  have step: "foldl dominant_step (dominant_step (b0, c0) e) es = (b, c)"
    using Cons.prems(1) by simp
  show ?case
  proof (cases x)
    case (Text i s)
    then have run: "foldl dominant_step (b0, c0) es = (b, c)"
      using step e by (simp add: dominant_step_text)
    from Cons.IH [OF run Cons.prems(2)] obtain pre post
      where "es = pre @ (b, Number c) # post" "\<forall>k v. (k, Number v) \<in> set pre \<longrightarrow> v < c"
      by blast
    with Text e
    have "e # es = (e # pre) @ (b, Number c) # post
        \<and> (\<forall>k v. (k, Number v) \<in> set (e # pre) \<longrightarrow> v < c)"
      by simp
    then show ?thesis by fast
  next
    case (Number v)
    show ?thesis
    proof (cases "v > c0")
      case True
      then have run: "foldl dominant_step (k, v) es = (b, c)"
        using step e Number by (simp add: dominant_step_number)
      show ?thesis
      proof (cases "v < c")
        case True
        from Cons.IH [OF run True] obtain pre post
          where "es = pre @ (b, Number c) # post" "\<forall>k v. (k, Number v) \<in> set pre \<longrightarrow> v < c"
          by blast
        with True e Number
        have "e # es = (e # pre) @ (b, Number c) # post
            \<and> (\<forall>k v. (k, Number v) \<in> set (e # pre) \<longrightarrow> v < c)"
          by simp
        then show ?thesis by fast
      next
        case False
        from dominant_foldl_same [OF run False] e Number
        have "e # es = [] @ (b, Number c) # es
            \<and> (\<forall>k v. (k, Number v) \<in> set [] \<longrightarrow> v < c)" by simp
        then show ?thesis by fast
      qed
    next
      case False
      then have run: "foldl dominant_step (b0, c0) es = (b, c)"
        using step e Number by (simp add: dominant_step_number)
      from Cons.IH [OF run Cons.prems(2)] obtain pre post
        where "es = pre @ (b, Number c) # post" "\<forall>k v. (k, Number v) \<in> set pre \<longrightarrow> v < c"
        by blast
      with False Cons.prems(2) e Number
      have "e # es = (e # pre) @ (b, Number c) # post
          \<and> (\<forall>k v. (k, Number v) \<in> set (e # pre) \<longrightarrow> v < c)"
        by auto
      then show ?thesis by fast
    qed
  qed
qed

lemma find_dominant_max:
  "0 \<le> snd (find_dominant cov)
   \<and> (\<forall>k v. (k, Number v) \<in> set cov \<longrightarrow> v \<le> snd (find_dominant cov))"
proof -
  obtain b c where dom: "find_dominant cov = (b, c)" by (cases "find_dominant cov")
  then have "foldl dominant_step ([], 0) (object_entries cov) = (b, c)"
    by (simp add: find_dominant_def)
  from dominant_foldl_max [OF this] dom show ?thesis
    by (simp add: set_object_entries)
qed

lemma find_dominant_first:
  assumes "0 < snd (find_dominant cov)"
  shows "\<exists>pre post. object_entries cov
           = pre @ (fst (find_dominant cov), Number (snd (find_dominant cov))) # post
       \<and> (\<forall>k v. (k, Number v) \<in> set pre \<longrightarrow> v < snd (find_dominant cov))
       \<and> (\<forall>k v. (k, Number v) \<in> set post \<longrightarrow> v \<le> snd (find_dominant cov))"
proof -
  obtain b c where dom: "find_dominant cov = (b, c)" by (cases "find_dominant cov")
  then have run: "foldl dominant_step ([], 0) (object_entries cov) = (b, c)"
    by (simp add: find_dominant_def)
  from assms dom have "0 < c" by simp
  from dominant_foldl_first [OF run this]
  obtain pre post where split: "object_entries cov = pre @ (b, Number c) # post"
    and pre: "\<forall>k v. (k, Number v) \<in> set pre \<longrightarrow> v < c"
    by blast
  from dominant_foldl_max [OF run]
  have all: "\<forall>k v. (k, Number v) \<in> set (object_entries cov) \<longrightarrow> v \<le> c" by simp
  from split all have "\<forall>k v. (k, Number v) \<in> set post \<longrightarrow> v \<le> c" by simp
  with split pre dom show ?thesis by auto
qed

lemma find_dominant_positive:
  assumes "(k, Number v) \<in> set cov" and "0 < v"
  shows "0 < snd (find_dominant cov)"
  using find_dominant_max [of cov] assms by force


lemma find_dominant_zero:
  assumes "\<not> 0 < snd (find_dominant cov)"
  shows "find_dominant cov = ([], 0)"
proof -
  obtain b c where dom: "find_dominant cov = (b, c)" by (cases "find_dominant cov")
  then have run: "foldl dominant_step ([], 0) (object_entries cov) = (b, c)"
    by (simp add: find_dominant_def)
  from assms dom have "\<not> 0 < c" by simp
  from dominant_foldl_same [OF run this] dom show ?thesis by simp
qed

section \<open>Rows under the primary key\<close>


lemma update_fresh: "k \<notin> fst ` set al \<Longrightarrow> AList.update k v al = al @ [(k, v)]"
  by (induction al) auto

lemma map_entry_agree:
  "(\<And>v. map_of m k = Some v \<Longrightarrow> f v = g v) \<Longrightarrow> AList.map_entry k f m = AList.map_entry k g m"
  by (induction m) auto

lemma primary_key_snoc:
  "primary_key (rows @ [r]) \<longleftrightarrow>
     primary_key rows \<and> bias_classification r \<notin> bias_classification ` set (rows_of (id' r) rows)"
proof -
  have "(id' r, bias_classification r) \<in> (\<lambda>r. (id' r, bias_classification r)) ` set rows
     \<longleftrightarrow> bias_classification r \<in> bias_classification ` set (rows_of (id' r) rows)"
  proof
    assume "(id' r, bias_classification r) \<in> (\<lambda>r. (id' r, bias_classification r)) ` set rows"
    then obtain x where x: "x \<in> set rows" "id' x = id' r"
      "bias_classification x = bias_classification r" by auto
    then have "x \<in> set (rows_of (id' r) rows)" by (simp add: rows_of_def)
    then have "bias_classification x \<in> bias_classification ` set (rows_of (id' r) rows)"
      by (rule imageI)
    with x(3) show "bias_classification r \<in> bias_classification ` set (rows_of (id' r) rows)"
      by simp
  next
    assume "bias_classification r \<in> bias_classification ` set (rows_of (id' r) rows)"
    then obtain x where x: "x \<in> set rows" "id' x = id' r"
      "bias_classification r = bias_classification x" by (auto simp add: rows_of_def)
    from x(1) have "(id' x, bias_classification x)
        \<in> (\<lambda>r. (id' r, bias_classification r)) ` set rows"
      by (rule imageI)
    with x(2,3) show "(id' r, bias_classification r)
        \<in> (\<lambda>r. (id' r, bias_classification r)) ` set rows" by simp
  qed
  then show ?thesis by (simp add: primary_key_def)
qed

lemma coverage_group_row_same:
  "\<exists>d. map_of (group_row r m) (id' r) = Some d
     \<and> coverage d = object_set (bias_classification r) (Number (article_count r))
          (case map_of m (id' r) of None \<Rightarrow> [] | Some d0 \<Rightarrow> coverage d0)"
  by (auto simp add: group_row_def Let_def map_of_map_entry AList.update_conv' split: option.splits)

text \<open>
  Under the primary key the coverage object of a story lists its rows in the order they
  were read, but for a row whose category is \<open>__proto__\<close>, which leaves no property.
\<close>

lemma group_rows_coverage:
  assumes "primary_key rows" and "map_of (group_rows rows) sid = Some d"
  shows "coverage d = map (\<lambda>r. (bias_classification r, Number (article_count r)))
           (filter (\<lambda>r. bias_classification r \<noteq> ''__proto__'') (rows_of sid rows))"
  using assms
proof (induction rows arbitrary: d rule: rev_induct)
  case Nil
  then show ?case by (simp add: group_rows_def)
next
  case (snoc r rows)
  let ?entry = "\<lambda>r. (bias_classification r, Number (article_count r))"
  let ?named = "\<lambda>r. bias_classification r \<noteq> ''__proto__''"
  from snoc.prems(1) have pk: "primary_key rows"
    and fresh: "bias_classification r \<notin> bias_classification ` set (rows_of (id' r) rows)"
    by (simp_all add: primary_key_snoc)
  show ?case
  proof (cases "sid = id' r")
    case False
    with snoc.prems(2) have "map_of (group_rows rows) sid = Some d"
      by (simp add: group_rows_snoc map_of_group_row_other)
    from snoc.IH [OF pk this] False show ?thesis
      by (simp add: rows_of_def)
  next
    case True
    let ?old = "case map_of (group_rows rows) (id' r) of None \<Rightarrow> [] | Some d0 \<Rightarrow> coverage d0"
    from coverage_group_row_same [of r "group_rows rows"] snoc.prems(2) True
    have cov: "coverage d = object_set (bias_classification r) (Number (article_count r)) ?old"
      by (simp add: group_rows_snoc)
    have old: "?old = map ?entry (filter ?named (rows_of (id' r) rows))"
    proof (cases "map_of (group_rows rows) (id' r)")
      case None
      then have "id' r \<notin> fst ` set (group_rows rows)" by (simp add: map_of_eq_None_iff)
      then have "rows_of (id' r) rows = []"
        by (auto simp add: keys_group_rows rows_of_def filter_empty_conv image_iff)
      with None show ?thesis by simp
    next
      case (Some d0)
      with snoc.IH [OF pk, of d0] True show ?thesis by simp
    qed
    show ?thesis
    proof (cases "bias_classification r = ''__proto__''")
      case True
      with cov old \<open>sid = id' r\<close> show ?thesis
        by (simp add: object_set_def rows_of_def)
    next
      case False
      have "fst ` set ?old \<subseteq> bias_classification ` set (rows_of (id' r) rows)"
        by (auto simp add: old)
      with fresh have "bias_classification r \<notin> fst ` set ?old" by blast
      from update_fresh [OF this] cov old False \<open>sid = id' r\<close> show ?thesis
        by (simp add: object_set_def rows_of_def)
    qed
  qed
qed

lemma group_rows_coverage_named:
  assumes "primary_key rows" and "map_of (group_rows rows) sid = Some d"
    and "\<forall>r \<in> set rows. bias_classification r \<noteq> ''__proto__''"
  shows "coverage d = map (\<lambda>r. (bias_classification r, Number (article_count r)))
           (rows_of sid rows)"
proof -
  from assms(3)
  have "filter (\<lambda>r. bias_classification r \<noteq> ''__proto__'') (rows_of sid rows) = rows_of sid rows"
    by (auto simp add: rows_of_def intro: filter_cong)
  with group_rows_coverage [OF assms(1,2)] show ?thesis by simp
qed

text \<open>
  The two grouping loops take the same turn on a row whose category the object does not
  hold yet, unless the category names a function of \<open>Object.prototype\<close>.
\<close>

lemma or_zero_plus_fresh:
  assumes "map_of obj k = None" and "k \<notin> set object_prototype_functions"
  shows "object_set k (or_zero_plus obj k count) obj = object_set k (Number count) obj"
  using assms by (simp add: object_set_def or_zero_plus_def inherited_property_def)

lemma group_row_dup_fresh:
  assumes "\<And>d. map_of m (id' r) = Some d \<Longrightarrow> map_of (coverage d) (bias_classification r) = None"
    and "bias_classification r \<notin> set object_prototype_functions"
  shows "group_row_dup r m = group_row r m"
proof -
  let ?fresh = "\<lparr>story = \<lparr>id' = id' r,
                      representative_headline = representative_headline r,
                      summary = summary r,
                      first_seen_date = first_seen_date r,
                      last_updated_date = last_updated_date r,
                      topic_tags = topic_tags r\<rparr>,
                    coverage = [], total' = 0\<rparr>"
  let ?m = "if map_of m (id' r) = None then AList.update (id' r) ?fresh m else m"
  have "map_of (coverage v) (bias_classification r) = None" if "map_of ?m (id' r) = Some v" for v
    using that assms(1) by (auto simp add: AList.update_conv' split: if_splits)
  then have "AList.map_entry (id' r)
           (\<lambda>storyData. storyData
              \<lparr>coverage := object_set (bias_classification r)
                             (or_zero_plus (coverage storyData) (bias_classification r)
                                (article_count r))
                             (coverage storyData),
               total' := total' storyData + article_count r\<rparr>) ?m
     = AList.map_entry (id' r)
           (\<lambda>storyData. storyData
              \<lparr>coverage := object_set (bias_classification r) (Number (article_count r))
                             (coverage storyData),
               total' := total' storyData + article_count r\<rparr>) ?m"
    by (intro map_entry_agree) (simp add: or_zero_plus_fresh [OF _ assms(2)])
  then show ?thesis
    by (simp add: group_row_dup_def group_row_def Let_def)
qed

lemma group_rows_dup_eq:
  assumes "primary_key rows"
    and "\<forall>r \<in> set rows. bias_classification r \<notin> set object_prototype_functions"
  shows "group_rows_dup rows = group_rows rows"
  using assms
proof (induction rows rule: rev_induct)
  case Nil
  then show ?case by (simp add: group_rows_dup_def group_rows_def)
next
  case (snoc r rows)
  from snoc.prems(1) have pk: "primary_key rows"
    and fresh: "bias_classification r \<notin> bias_classification ` set (rows_of (id' r) rows)"
    by (simp_all add: primary_key_snoc)
  from snoc.prems(2) have names: "\<forall>r \<in> set rows. bias_classification r \<notin> set object_prototype_functions"
    and name: "bias_classification r \<notin> set object_prototype_functions"
    by simp_all
  have "map_of (coverage d) (bias_classification r) = None"
    if "map_of (group_rows rows) (id' r) = Some d" for d
  proof -
    have "fst ` set (coverage d) \<subseteq> bias_classification ` set (rows_of (id' r) rows)"
      by (auto simp add: group_rows_coverage [OF pk that])
    with fresh show ?thesis by (auto simp add: map_of_eq_None_iff)
  qed
  from group_row_dup_fresh [of "group_rows rows" r, OF this name] snoc.IH [OF pk names]
  show ?case by (simp add: group_rows_dup_snoc group_rows_snoc)
qed

lemma detect_blindspots_dup_eq:
  "primary_key rows \<Longrightarrow>
   \<forall>r \<in> set rows. bias_classification r \<notin> set object_prototype_functions \<Longrightarrow>
   detect_blindspots_dup l t rows = detect_blindspots l t rows"
  by (simp add: detect_blindspots_dup_def detect_blindspots_def group_rows_dup_eq
      identify_blindspots_dup_eq)

lemma inherited_property_None:
  "inherited_property k = None \<longleftrightarrow> k \<noteq> ''__proto__'' \<and> k \<notin> set object_prototype_functions"
  by (simp add: inherited_property_def)

lemma primary_key_two_stories:
  "primary_key [example_row 1 ''Gov/Official'' 2, example_row 1 ''Western'' 1,
                example_row 2 ''Western'' 4]"
  by (simp add: primary_key_def example_row_def)

section \<open>Coverage and dominance of a story\<close>




lemma group_rows_tie:
  "group_rows [example_row 1 ''Independent Local'' 2, example_row 1 ''Regional'' 2]
   = [(1, example_data 1 [(''Independent Local'', Number 2), (''Regional'', Number 2)] 4)]"
  by (simp add: evaluation)

lemma find_dominant_tie:
  "find_dominant [(''Independent Local'', Number 2), (''Regional'', Number 2)] = (''Independent Local'', 2)"
  by (simp add: evaluation)

lemma object_entries_tie:
  "object_entries [(''Independent Local'', Number 2), (''Regional'', Number 2)]
     = [(''Independent Local'', Number 2), (''Regional'', Number 2)]"
  by (simp add: evaluation)

lemma positive_count:
  "0 < sum_list (map article_count xs) \<Longrightarrow> \<exists>r \<in> set xs. 0 < article_count r"
proof (rule ccontr)
  assume pos: "0 < sum_list (map article_count xs)"
  assume "\<not> (\<exists>r \<in> set xs. 0 < article_count r)"
  then have "\<forall>r \<in> set xs. article_count r \<le> 0" by auto
  then have "sum_list (map article_count xs) \<le> 0"
    by (induction xs) auto
  with pos show False by simp
qed

lemma find_dominant_rows:
  assumes "coverage d = map (\<lambda>r. (bias_classification r, Number (article_count r))) xs"
    and "0 < sum_list (map article_count xs)"
  shows "0 < snd (find_dominant (coverage d))"
proof -
  from positive_count [OF assms(2)] obtain r where r: "r \<in> set xs" "0 < article_count r"
    by blast
  from r(1) have "(bias_classification r, Number (article_count r)) \<in> set (coverage d)"
    by (auto simp add: assms(1))
  from find_dominant_positive [OF this r(2)] show ?thesis .
qed

lemma identified_element:
  assumes "b \<in> set (identify_blindspots t (group_rows rows))"
    and "(id' b, d) \<in> set (group_rows rows)"
  shows "blindspot_of t d = Some b"
proof -
  from assms(1) obtain i e where e: "(i, e) \<in> set (group_rows rows)" "blindspot_of t e = Some b"
    by (auto simp add: in_identify_blindspots)
  from blindspot_of_SomeD(2) [OF e(2)] group_rows_keyed(1) [OF e(1)] have "i = id' b" by simp
  with e(1) assms(2) distinct_group_rows [of rows] have "e = d"
    by (metis eq_key_imp_eq_value)
  with e(2) show ?thesis by simp
qed

lemma response_element:
  assumes "results res = Some rows"
    and "b \<in> set (response_body (blindspots_GET req (Returns (Some (Returns res)))))"
    and "(id' b, d) \<in> set (group_rows rows)"
  shows "blindspot_of (parseFloat (param_or (threshold_param req) ''0.7'')) d = Some b"
proof -
  from assms(2) blindspots_GET_rows [OF assms(1), of req] set_detect_blindspots
  have "b \<in> set (identify_blindspots (parseFloat (param_or (threshold_param req) ''0.7''))
                   (group_rows rows))"
    by auto
  from identified_element [OF this assms(3)] show ?thesis .
qed

lemma blindspots_GET_dup_eq:
  assumes "primary_key rows"
    and "\<forall>r \<in> set rows. bias_classification r \<notin> set object_prototype_functions"
    and "results res = Some rows" and "success res"
  shows "response_body (blindspots_GET_dup req (Returns (Some (Returns res))))
       = response_body (blindspots_GET req (Returns (Some (Returns res))))"
  using assms
  by (simp add: blindspots_GET_rows blindspots_GET_dup_rows detect_blindspots_dup_eq)

section \<open>The story route\<close>

lemma select_story_absent:
  "\<forall>s \<in> set stories_table. id' s \<noteq> n \<Longrightarrow> select_story stories_table n = Returns None"
  by (simp add: select_story_def find_None_iff)

section \<open>Coverage along the history of the database\<close>

lemma aggregate_story_tables [simp]:
  "articles (aggregate_story db sid) = articles db"
  "sources (aggregate_story db sid) = sources db"
  by (simp_all add: aggregate_story_def)

lemma recompute_story_id:
  "c \<in> set (recompute_coverage db sid) \<Longrightarrow> story_id c = sid"
  by (auto simp add: recompute_coverage_def)

lemma recompute_depends:
  assumes "sources db' = sources db" and "articles_of db' sid = articles_of db sid"
  shows "recompute_coverage db' sid = recompute_coverage db sid"
  using assms
  by (simp add: recompute_coverage_def story_biases_def bias_of_article_def [abs_def])

lemma articles_of_aggregate [simp]:
  "articles_of (aggregate_story db sid) s = articles_of db s"
  by (simp add: articles_of_def)

lemma recompute_aggregate [simp]:
  "recompute_coverage (aggregate_story db sid) s = recompute_coverage db s"
  by (rule recompute_depends) simp_all

lemma stored_aggregate:
  "stored_coverage (aggregate_story db sid) s
     = (if s = sid then recompute_coverage db sid else stored_coverage db s)"
proof -
  have "filter (\<lambda>c. story_id c = s) (recompute_coverage db sid)
      = (if s = sid then recompute_coverage db sid else [])"
    using recompute_story_id [of _ db sid]
    by (auto simp add: filter_empty_conv filter_id_conv)
  moreover have "filter (\<lambda>c. story_id c = s) (filter (\<lambda>c. story_id c \<noteq> sid) (story_coverage db))
      = (if s = sid then [] else filter (\<lambda>c. story_id c = s) (story_coverage db))"
    by (auto simp add: filter_empty_conv intro!: filter_cong)
  ultimately show ?thesis
    by (simp add: stored_coverage_def aggregate_story_def)
qed

















section \<open>Counts of a story\<close>

lemma sum_recompute:
  "sum_list (map row_article_count (recompute_coverage db sid)) = int (length (story_biases db sid))"
proof -
  let ?xs = "story_biases db sid"
  have "sum_list (map row_article_count (recompute_coverage db sid))
      = sum_list (map (\<lambda>b. int (count_list ?xs b)) (remdups ?xs))"
    by (simp add: recompute_coverage_def comp_def)
  also have "\<dots> = (\<Sum>b \<in> set ?xs. int (count_list ?xs b))"
    by (simp add: sum_list_distinct_conv_sum_set)
  also have "\<dots> = int (\<Sum>b \<in> set ?xs. count_list ?xs b)"
    by simp
  also have "\<dots> = int (length ?xs)"
    by (simp add: sum_count_set)
  finally show ?thesis .
qed

lemma length_map_filter_total:
  "\<forall>x \<in> set xs. f x \<noteq> None \<Longrightarrow> length (List.map_filter f xs) = length xs"
  by (induction xs) (auto simp add: List.map_filter_simps)

lemma length_story_biases:
  assumes "foreign_key db"
  shows "length (story_biases db sid) = length (articles_of db sid)"
proof -
  have "bias_of_article db a \<noteq> None" if "a \<in> set (articles_of db sid)" for a
  proof -
    from that have "a \<in> set (articles db)" by (simp add: articles_of_def)
    with assms obtain s where "s \<in> set (sources db)" "source_row_id s = article_row_source_id a"
      unfolding foreign_key_def by blast
    then have "find (\<lambda>s. source_row_id s = article_row_source_id a) (sources db) \<noteq> None"
      by (auto simp add: find_None_iff)
    then show ?thesis by (simp add: bias_of_article_def)
  qed
  then show ?thesis
    by (simp add: story_biases_def length_map_filter_total)
qed


lemma sum_consistent_aggregate:
  assumes "foreign_key db"
    and "\<forall>s. sum_list (map row_article_count (stored_coverage db s)) = int (length (articles_of db s))"
  shows "sum_list (map row_article_count (stored_coverage (aggregate_story db sid) s))
       = int (length (articles_of (aggregate_story db sid) s))"
  using assms by (simp add: stored_aggregate sum_recompute length_story_biases)


section \<open>A request to the sources route\<close>










section \<open>The invariants along a history\<close>







section \<open>The scenario of two sources\<close>




section \<open>The claims\<close>

text \<open>
  C1. The blindspot detector considers only stories whose total coverage is at least 3:
  whatever the request and its threshold, a story whose rows sum to less than 3 articles
  is absent from the response of \<open>GET /api/blindspots\<close>, in the route and in its
  copy, however dominant its leading bias category is.
\<close>

theorem C1_minimum_total_articles:
  assumes "results res = Some rows" and "story_total sid rows < 3"
  shows "sid \<notin> id' ` set (response_body (blindspots_GET req (Returns (Some (Returns res)))))
       \<and> sid \<notin> id' ` set (response_body (blindspots_GET_dup req (Returns (Some (Returns res)))))"
proof -
  have "sid \<noteq> id' b"
    if "b \<in> set (response_body (blindspots_GET req (Returns (Some (Returns res)))))" for b
    using identified_total body_blindspots_GET [OF assms(1), of req] that assms(2) by fastforce
  moreover
  have "sid \<noteq> id' b"
    if "b \<in> set (response_body (blindspots_GET_dup req (Returns (Some (Returns res)))))" for b
    using identified_dup_total body_blindspots_GET_dup [OF assms(1), of req] that assms(2)
    by fastforce
  ultimately show ?thesis by blast
qed

theorem C1_minimum_total_articles_witness:
  "story_total 1 [example_row 1 ''Gov/Official'' 2] < 3
   \<and> 1 \<notin> id' ` set (response_body (blindspots_GET
          \<lparr>limit_param = None, threshold_param = Some ''0''\<rparr>
          (returning [example_row 1 ''Gov/Official'' 2])))
   \<and> 1 \<notin> id' ` set (response_body (blindspots_GET_dup
          \<lparr>limit_param = None, threshold_param = Some ''0''\<rparr>
          (returning [example_row 1 ''Gov/Official'' 2])))"
proof -
  have total: "story_total 1 [example_row 1 ''Gov/Official'' 2] < 3"
    by (simp add: story_total_def rows_of_def example_row_def)
  have res: "results \<lparr>success = True, results = Some [example_row 1 ''Gov/Official'' 2],
      error = None\<rparr> = Some [example_row 1 ''Gov/Official'' 2]"
    by simp
  from C1_minimum_total_articles [OF res total] total
  show ?thesis by (simp add: returning_def)
qed

text \<open>
  C2, as the code has it. The dominance threshold is an inclusive boundary of the kept set: a story that
  passes the minimum-articles filter is kept by the loop over the stories exactly when
  its dominant percentage is greater than or equal to the threshold, so a story whose
  percentage equals the threshold is kept. The response is the sorted kept set cut to
  the limit: a story of the response has a percentage greater than or equal to the
  threshold, and when no more stories are kept than the limit allows, a story is in the
  response exactly when its percentage is greater than or equal to the threshold. The
  threshold is 0.7 when the request gives none. This holds for the route and for its
  copy, on the responses of the two handlers to a query that succeeded.
\<close>

theorem C2_threshold_inclusive:
  assumes "results res = Some rows" and "success res"
    and "sid \<in> id' ` set rows" and "\<not> story_total sid rows < 3"
    and "threshold = parseFloat (param_or (threshold_param req) ''0.7'')"
    and "limit = parseInt (param_or (limit_param req) ''10'')"
  shows "\<exists>d e. (sid, d) \<in> set (group_rows rows) \<and> (sid, e) \<in> set (group_rows_dup rows)
       \<and> (sid \<in> id' ` set (identify_blindspots threshold (group_rows rows))
            \<longleftrightarrow> js_ge (dominant_percentage_of d) threshold)
       \<and> (sid \<in> id' ` set (identify_blindspots_dup threshold (group_rows_dup rows))
            \<longleftrightarrow> js_ge (dominant_percentage_of e) threshold)
       \<and> (dominant_percentage_of d = threshold \<longrightarrow>
            sid \<in> id' ` set (identify_blindspots threshold (group_rows rows)))
       \<and> (dominant_percentage_of e = threshold \<longrightarrow>
            sid \<in> id' ` set (identify_blindspots_dup threshold (group_rows_dup rows)))
       \<and> (sid \<in> id' ` set (response_body (blindspots_GET req (Returns (Some (Returns res)))))
            \<longrightarrow> js_ge (dominant_percentage_of d) threshold)
       \<and> (sid \<in> id' ` set (response_body (blindspots_GET_dup req (Returns (Some (Returns res)))))
            \<longrightarrow> js_ge (dominant_percentage_of e) threshold)
       \<and> (\<forall>n. limit = Some n
              \<and> int (length (identify_blindspots threshold (group_rows rows))) \<le> n \<longrightarrow>
            (sid \<in> id' ` set (response_body (blindspots_GET req (Returns (Some (Returns res)))))
               \<longleftrightarrow> js_ge (dominant_percentage_of d) threshold))
       \<and> (\<forall>n. limit = Some n
              \<and> int (length (identify_blindspots_dup threshold (group_rows_dup rows))) \<le> n \<longrightarrow>
            (sid \<in> id' ` set (response_body (blindspots_GET_dup req (Returns (Some (Returns res)))))
               \<longleftrightarrow> js_ge (dominant_percentage_of e) threshold))
       \<and> (threshold_param req = None \<longrightarrow> threshold = Finite (7 / 10))"
proof -
  let ?body = "response_body (blindspots_GET req (Returns (Some (Returns res))))"
  let ?body_dup = "response_body (blindspots_GET_dup req (Returns (Some (Returns res))))"
  from assms(3) obtain d where d: "(sid, d) \<in> set (group_rows rows)"
    using keys_group_rows [of rows] by force
  from assms(3) obtain e where e: "(sid, e) \<in> set (group_rows_dup rows)"
    using keys_group_rows_dup [of rows] by force
  have kept: "sid \<in> id' ` set (identify_blindspots threshold (group_rows rows))
      \<longleftrightarrow> js_ge (dominant_percentage_of d) threshold"
    by (rule kept_group_rows [OF d assms(4)])
  have kept_dup: "sid \<in> id' ` set (identify_blindspots_dup threshold (group_rows_dup rows))
      \<longleftrightarrow> js_ge (dominant_percentage_of e) threshold"
    using kept_group_rows_dup [OF e assms(4)] by (simp add: identify_blindspots_dup_eq)
  have fin: "\<not> total' d < 3" "\<not> total' e < 3"
    using d e assms(4) by (simp_all add: group_rows_keyed(2) group_rows_dup_keyed(2))
  have eq: "dominant_percentage_of d = threshold \<longrightarrow>
      sid \<in> id' ` set (identify_blindspots threshold (group_rows rows))"
    using kept fin(1) by (auto simp add: dominant_percentage_of_Finite)
  have eq_dup: "dominant_percentage_of e = threshold \<longrightarrow>
      sid \<in> id' ` set (identify_blindspots_dup threshold (group_rows_dup rows))"
    using kept_dup fin(2) by (auto simp add: dominant_percentage_of_Finite)
  have body: "?body = detect_blindspots limit threshold rows"
    using blindspots_GET_rows [OF assms(1)] assms(5,6) by simp
  have body_dup: "?body_dup = detect_blindspots_dup limit threshold rows"
    using blindspots_GET_dup_rows [OF assms(1,2)] assms(5,6) by simp
  have only: "sid \<in> id' ` set ?body \<longrightarrow> js_ge (dominant_percentage_of d) threshold"
    using set_detect_blindspots [of limit threshold rows] kept body by auto
  have only_dup: "sid \<in> id' ` set ?body_dup \<longrightarrow> js_ge (dominant_percentage_of e) threshold"
    using set_detect_blindspots_dup [of limit threshold rows] kept_dup body_dup
    by (auto simp add: identify_blindspots_dup_eq)
  have whole: "sid \<in> id' ` set ?body \<longleftrightarrow> js_ge (dominant_percentage_of d) threshold"
    if "limit = Some n" "int (length (identify_blindspots threshold (group_rows rows))) \<le> n" for n
    using set_detect_blindspots_whole [OF that(2)] that(1) kept body by simp
  have whole_dup: "sid \<in> id' ` set ?body_dup \<longleftrightarrow> js_ge (dominant_percentage_of e) threshold"
    if "limit = Some n"
      "int (length (identify_blindspots_dup threshold (group_rows_dup rows))) \<le> n" for n
    using set_detect_blindspots_dup_whole [of threshold rows n] that kept_dup body_dup
    by (simp add: identify_blindspots_dup_eq)
  have dflt: "threshold_param req = None \<longrightarrow> threshold = Finite (7 / 10)"
    using assms(5) by (simp add: parseFloat_default)
  from whole have whole': "\<forall>n. limit = Some n
              \<and> int (length (identify_blindspots threshold (group_rows rows))) \<le> n \<longrightarrow>
            (sid \<in> id' ` set ?body \<longleftrightarrow> js_ge (dominant_percentage_of d) threshold)"
    by blast
  from whole_dup have whole_dup': "\<forall>n. limit = Some n
              \<and> int (length (identify_blindspots_dup threshold (group_rows_dup rows))) \<le> n \<longrightarrow>
            (sid \<in> id' ` set ?body_dup \<longleftrightarrow> js_ge (dominant_percentage_of e) threshold)"
    by blast
  show ?thesis
    by (rule exI [of _ d], rule exI [of _ e])
       (intro conjI d e kept kept_dup eq eq_dup only only_dup whole' whole_dup' dflt)
qed

theorem C2_threshold_inclusive_witness:
  "results \<lparr>success = True,
            results = Some [example_row 1 ''Gov/Official'' 7, example_row 1 ''Western'' 3],
            error = None\<rparr>
     = Some [example_row 1 ''Gov/Official'' 7, example_row 1 ''Western'' 3]
   \<and> 1 \<in> id' ` set [example_row 1 ''Gov/Official'' 7, example_row 1 ''Western'' 3]
   \<and> \<not> story_total 1 [example_row 1 ''Gov/Official'' 7, example_row 1 ''Western'' 3] < 3
   \<and> group_rows [example_row 1 ''Gov/Official'' 7, example_row 1 ''Western'' 3]
       = [(1, example_data 1 [(''Gov/Official'', Number 7), (''Western'', Number 3)] 10)]
   \<and> group_rows_dup [example_row 1 ''Gov/Official'' 7, example_row 1 ''Western'' 3]
       = [(1, example_data 1 [(''Gov/Official'', Number 7), (''Western'', Number 3)] 10)]
   \<and> dominant_percentage_of (example_data 1 [(''Gov/Official'', Number 7), (''Western'', Number 3)] 10)
       = Finite (7 / 10)
   \<and> parseFloat (param_or (threshold_param no_parameters) ''0.7'') = Finite (7 / 10)
   \<and> parseInt (param_or (limit_param no_parameters) ''10'') = Some 10
   \<and> int (length (identify_blindspots (Finite (7 / 10))
        (group_rows [example_row 1 ''Gov/Official'' 7, example_row 1 ''Western'' 3]))) \<le> 10
   \<and> int (length (identify_blindspots_dup (Finite (7 / 10))
        (group_rows_dup [example_row 1 ''Gov/Official'' 7, example_row 1 ''Western'' 3]))) \<le> 10
   \<and> 1 \<in> id' ` set (response_body (blindspots_GET no_parameters
        (returning [example_row 1 ''Gov/Official'' 7, example_row 1 ''Western'' 3])))
   \<and> 1 \<in> id' ` set (response_body (blindspots_GET_dup no_parameters
        (returning [example_row 1 ''Gov/Official'' 7, example_row 1 ''Western'' 3])))"
proof -
  let ?rows = "[example_row 1 ''Gov/Official'' 7, example_row 1 ''Western'' 3]"
  let ?res = "\<lparr>success = True, results = Some ?rows, error = None\<rparr>"
  let ?d = "example_data 1 [(''Gov/Official'', Number 7), (''Western'', Number 3)] 10"
  have res: "results ?res = Some ?rows" and ok: "success ?res" by simp_all
  have sid: "1 \<in> id' ` set ?rows"
    by (simp add: example_row_def)
  have m: "group_rows ?rows = [(1, ?d)]"
    by (rule group_rows_example1)
  have m_dup: "group_rows_dup ?rows = [(1, ?d)]"
    by (simp add: evaluation)
  have ge3: "\<not> story_total 1 ?rows < 3"
    by (simp add: story_total_def rows_of_def example_row_def)
  have pct: "dominant_percentage_of ?d = Finite (7 / 10)"
    by (simp add: dominant_percentage_of_def example_data_def find_dominant_example1 js_div_def)
  have t: "Finite (7 / 10) = parseFloat (param_or (threshold_param no_parameters) ''0.7'')"
    by (simp add: no_parameters_def parseFloat_default)
  have l: "Some 10 = parseInt (param_or (limit_param no_parameters) ''10'')"
    by (simp add: no_parameters_def parseInt_default)
  have len: "int (length (identify_blindspots (Finite (7 / 10)) (group_rows ?rows))) \<le> 10"
    by (simp add: m identify_blindspots_def List.map_filter_simps split: option.splits)
  have len_dup: "int (length (identify_blindspots_dup (Finite (7 / 10)) (group_rows_dup ?rows))) \<le> 10"
    by (simp add: m_dup identify_blindspots_dup_def List.map_filter_simps split: option.splits)
  from C2_threshold_inclusive [OF res ok sid ge3 t l]
  have "1 \<in> id' ` set (response_body (blindspots_GET no_parameters (Returns (Some (Returns ?res)))))
      \<and> 1 \<in> id' ` set (response_body (blindspots_GET_dup no_parameters (Returns (Some (Returns ?res)))))"
    using len len_dup pct by (simp add: m m_dup)
  then show ?thesis
    using res sid m m_dup ge3 pct t l len len_dup by (simp add: returning_def)
qed

text \<open>
  C2 as stated, that a story past the minimum-articles filter is in the result exactly
  when its percentage reaches the threshold, fails on the response for eleven stories
  of percentage 1 and a request without parameters: the limit of 10 leaves story 11 out,
  in the route and in its copy.
\<close>

theorem C2_limit_cuts_counterexample:
  "(11, example_data 11 [(''Western'', Number 3)] 3) \<in> set (group_rows eleven_stories)
   \<and> \<not> total' (example_data 11 [(''Western'', Number 3)] 3) < 3
   \<and> dominant_percentage_of (example_data 11 [(''Western'', Number 3)] 3) = Finite 1
   \<and> parseFloat (param_or (threshold_param no_parameters) ''0.7'') = Finite (7 / 10)
   \<and> js_ge (dominant_percentage_of (example_data 11 [(''Western'', Number 3)] 3))
        (parseFloat (param_or (threshold_param no_parameters) ''0.7''))
   \<and> 11 \<notin> id' ` set (response_body (blindspots_GET no_parameters (returning eleven_stories)))
   \<and> 11 \<notin> id' ` set (response_body (blindspots_GET_dup no_parameters (returning eleven_stories)))"
  by (simp add: eleven_stories_def dominant_percentage_of_def evaluation)



text \<open>
  C4, as the code has it. When several categories tie for the highest count, the dominant
  bias is the first of them in the order of \<open>Object.entries\<close> of the coverage
  object: every entry before the dominant one has a strictly smaller count. For category
  names that are neither array indices nor names of members of \<open>Object.prototype\<close>
  this is the order in which the story's rows were read. The detector is deterministic
  for a given row order, in the route and in its copy, but no canonical order of the
  categories enters.
\<close>

theorem C4_first_entry_wins:
  assumes "primary_key rows"
    and "\<forall>r \<in> set rows. inherited_property (bias_classification r) = None"
    and "results res = Some rows" and "success res"
    and "(sid, d) \<in> set (group_rows rows)" and "\<not> total' d < 3"
  shows "(\<exists>pre post. object_entries (coverage d)
              = pre @ (fst (find_dominant (coverage d)),
                       Number (snd (find_dominant (coverage d)))) # post
            \<and> (\<forall>k v. (k, Number v) \<in> set pre \<longrightarrow> v < snd (find_dominant (coverage d)))
            \<and> (\<forall>k v. (k, Number v) \<in> set post \<longrightarrow> v \<le> snd (find_dominant (coverage d))))
       \<and> ((\<forall>r \<in> set (rows_of sid rows). \<not> is_array_index (bias_classification r)) \<longrightarrow>
            object_entries (coverage d)
              = map (\<lambda>r. (bias_classification r, Number (article_count r))) (rows_of sid rows))
       \<and> (\<forall>b \<in> set (response_body (blindspots_GET req (Returns (Some (Returns res))))).
             id' b = sid \<longrightarrow> dominant_bias b = fst (find_dominant (coverage d)))
       \<and> (\<forall>b \<in> set (response_body (blindspots_GET_dup req (Returns (Some (Returns res))))).
             id' b = sid \<longrightarrow> dominant_bias b = fst (find_dominant (coverage d)))"
proof -
  let ?dom = "find_dominant (coverage d)"
  from assms(2) have proto: "\<forall>r \<in> set rows. bias_classification r \<noteq> ''__proto__''"
    and funs: "\<forall>r \<in> set rows. bias_classification r \<notin> set object_prototype_functions"
    by (simp_all add: inherited_property_None)
  from assms(5) have m: "map_of (group_rows rows) sid = Some d"
    by (simp add: distinct_group_rows)
  have cov: "coverage d
      = map (\<lambda>r. (bias_classification r, Number (article_count r))) (rows_of sid rows)"
    by (rule group_rows_coverage_named [OF assms(1) m proto])
  have "total' d = sum_list (map article_count (rows_of sid rows))"
    using group_rows_keyed(2) [OF assms(5)] by (simp add: story_total_def)
  with assms(6) have "0 < sum_list (map article_count (rows_of sid rows))" by simp
  from find_dominant_rows [OF cov this] have pos: "0 < snd ?dom" .
  have first: "\<exists>pre post. object_entries (coverage d) = pre @ (fst ?dom, Number (snd ?dom)) # post
            \<and> (\<forall>k v. (k, Number v) \<in> set pre \<longrightarrow> v < snd ?dom)
            \<and> (\<forall>k v. (k, Number v) \<in> set post \<longrightarrow> v \<le> snd ?dom)"
    by (rule find_dominant_first [OF pos])
  have plain: "(\<forall>r \<in> set (rows_of sid rows). \<not> is_array_index (bias_classification r)) \<longrightarrow>
      object_entries (coverage d)
        = map (\<lambda>r. (bias_classification r, Number (article_count r))) (rows_of sid rows)"
  proof
    assume "\<forall>r \<in> set (rows_of sid rows). \<not> is_array_index (bias_classification r)"
    with cov have "\<forall>e \<in> set (coverage d). \<not> is_array_index (fst e)" by simp
    from object_entries_plain [OF this] cov show "object_entries (coverage d)
        = map (\<lambda>r. (bias_classification r, Number (article_count r))) (rows_of sid rows)"
      by simp
  qed
  have served: "\<forall>b \<in> set (response_body (blindspots_GET req (Returns (Some (Returns res))))).
      id' b = sid \<longrightarrow> dominant_bias b = fst ?dom"
  proof (intro ballI impI)
    fix b assume b: "b \<in> set (response_body (blindspots_GET req (Returns (Some (Returns res)))))"
      and "id' b = sid"
    with assms(5) have "(id' b, d) \<in> set (group_rows rows)" by simp
    from response_element [OF assms(3) b this]
    show "dominant_bias b = fst ?dom"
      by (simp add: blindspot_of_SomeD(6))
  qed
  have served_dup: "\<forall>b \<in> set (response_body (blindspots_GET_dup req (Returns (Some (Returns res))))).
      id' b = sid \<longrightarrow> dominant_bias b = fst ?dom"
    using served blindspots_GET_dup_eq [OF assms(1) funs assms(3,4), of req] by simp
  show ?thesis
    by (intro conjI first plain served served_dup)
qed

theorem C4_first_entry_wins_witness:
  "primary_key [example_row 1 ''Independent Local'' 2, example_row 1 ''Regional'' 2]
   \<and> map inherited_property (map bias_classification
        [example_row 1 ''Independent Local'' 2, example_row 1 ''Regional'' 2]) = [None, None]
   \<and> (1, example_data 1 [(''Independent Local'', Number 2), (''Regional'', Number 2)] 4)
       \<in> set (group_rows [example_row 1 ''Independent Local'' 2, example_row 1 ''Regional'' 2])
   \<and> \<not> total' (example_data 1 [(''Independent Local'', Number 2), (''Regional'', Number 2)] 4) < 3
   \<and> map is_array_index (map bias_classification
        (rows_of 1 [example_row 1 ''Independent Local'' 2, example_row 1 ''Regional'' 2]))
       = [False, False]
   \<and> object_entries (coverage
        (example_data 1 [(''Independent Local'', Number 2), (''Regional'', Number 2)] 4))
       = [(''Independent Local'', Number 2), (''Regional'', Number 2)]
   \<and> find_dominant (coverage
        (example_data 1 [(''Independent Local'', Number 2), (''Regional'', Number 2)] 4))
       = (''Independent Local'', 2)
   \<and> map dominant_bias (response_body
        (blindspots_GET \<lparr>limit_param = None, threshold_param = Some ''0.5''\<rparr>
           (returning [example_row 1 ''Independent Local'' 2, example_row 1 ''Regional'' 2])))
       = [''Independent Local'']
   \<and> map dominant_bias (response_body
        (blindspots_GET_dup \<lparr>limit_param = None, threshold_param = Some ''0.5''\<rparr>
           (returning [example_row 1 ''Independent Local'' 2, example_row 1 ''Regional'' 2])))
       = [''Independent Local'']"
proof -
  let ?rows = "[example_row 1 ''Independent Local'' 2, example_row 1 ''Regional'' 2]"
  let ?d = "example_data 1 [(''Independent Local'', Number 2), (''Regional'', Number 2)] 4"
  let ?res = "\<lparr>success = True, results = Some ?rows, error = None\<rparr>"
  let ?req = "\<lparr>limit_param = None, threshold_param = Some ''0.5''\<rparr>"
  let ?b = "example_blindspot 1 [(''Independent Local'', Number 2), (''Regional'', Number 2)] 4
              ''Independent Local'' (1 / 2)"
  have pk: "primary_key ?rows"
    by (simp add: primary_key_def example_row_def)
  have names: "\<forall>r \<in> set ?rows. inherited_property (bias_classification r) = None"
    by (simp add: example_row_def inherited_property_def object_prototype_functions_def)
  have res: "results ?res = Some ?rows" and ok: "success ?res" by simp_all
  have mem: "(1, ?d) \<in> set (group_rows ?rows)"
    by (simp add: group_rows_tie)
  have ge3: "\<not> total' ?d < 3"
    by (simp add: example_data_def)
  have cov: "coverage ?d = [(''Independent Local'', Number 2), (''Regional'', Number 2)]"
    by (simp add: example_data_def)
  have plain: "\<forall>r \<in> set (rows_of 1 ?rows). \<not> is_array_index (bias_classification r)"
    by (simp add: rows_of_def example_row_def is_array_index_def is_digit_def)
  have body: "response_body (blindspots_GET ?req (returning ?rows)) = [?b]"
    by (simp add: evaluation)
  have body_dup: "response_body (blindspots_GET_dup ?req (returning ?rows)) = [?b]"
    by (simp add: evaluation)
  note C4 = C4_first_entry_wins [OF pk names res ok mem ge3, of ?req]
  note entries = C4 [THEN conjunct2, THEN conjunct1, THEN mp, OF plain]
  note served = C4 [THEN conjunct2, THEN conjunct2, THEN conjunct1]
  note served_dup = C4 [THEN conjunct2, THEN conjunct2, THEN conjunct2]
  from entries have a: "object_entries (coverage ?d)
      = [(''Independent Local'', Number 2), (''Regional'', Number 2)]"
    by (simp add: rows_of_def example_row_def)
  have dom: "find_dominant (coverage ?d) = (''Independent Local'', 2)"
    by (simp add: cov find_dominant_tie)
  from served body have b: "dominant_bias ?b = fst (find_dominant (coverage ?d))"
    by (simp add: returning_def example_blindspot_def)
  from served_dup body_dup have c: "dominant_bias ?b = fst (find_dominant (coverage ?d))"
    by (simp add: returning_def example_blindspot_def)
  from b have "map dominant_bias (response_body (blindspots_GET ?req (returning ?rows)))
      = [''Independent Local'']"
    by (simp add: body dom)
  moreover from c
  have "map dominant_bias (response_body (blindspots_GET_dup ?req (returning ?rows)))
      = [''Independent Local'']"
    by (simp add: body_dup dom)
  moreover have "map inherited_property (map bias_classification ?rows) = [None, None]"
    by (simp add: example_row_def inherited_property_def object_prototype_functions_def)
  moreover have "map is_array_index (map bias_classification (rows_of 1 ?rows)) = [False, False]"
    by (simp add: rows_of_def example_row_def is_array_index_def is_digit_def)
  ultimately show ?thesis
    using pk mem ge3 a dom by simp
qed

text \<open>
  C4 as stated fails: with \<open>Independent Local\<close> and \<open>Regional\<close> tied at 2, the
  category read first is dominant, \<open>Independent Local\<close> in one row order (against
  the canonical order, which lists \<open>Regional\<close> first) and \<open>Regional\<close> in the
  other, so the output depends on the order of the rows.
\<close>

theorem C4_canonical_order_counterexample:
  "map dominant_bias (response_body
      (blindspots_GET \<lparr>limit_param = None, threshold_param = Some ''0.5''\<rparr>
         (returning [example_row 1 ''Independent Local'' 2, example_row 1 ''Regional'' 2])))
     = [''Independent Local'']
   \<and> map dominant_bias (response_body
      (blindspots_GET \<lparr>limit_param = None, threshold_param = Some ''0.5''\<rparr>
         (returning [example_row 1 ''Regional'' 2, example_row 1 ''Independent Local'' 2])))
     = [''Regional'']
   \<and> map dominant_bias (response_body
      (blindspots_GET_dup \<lparr>limit_param = None, threshold_param = Some ''0.5''\<rparr>
         (returning [example_row 1 ''Independent Local'' 2, example_row 1 ''Regional'' 2])))
     = [''Independent Local'']
   \<and> map dominant_bias (response_body
      (blindspots_GET_dup \<lparr>limit_param = None, threshold_param = Some ''0.5''\<rparr>
         (returning [example_row 1 ''Regional'' 2, example_row 1 ''Independent Local'' 2])))
     = [''Regional'']"
  by (simp add: evaluation)

text \<open>
  C5. The response list is sorted by dominant percentage in descending order, and it has
  at most \<open>limit\<close> entries, for every limit that is a count (the parameter parses
  to an integer that is not negative); the limit is 10 when the request gives none, and
  the list then has at most 10 entries.
\<close>

theorem C5_sorted_and_limited:
  "descending (map dominant_percentage (response_body (blindspots_GET req ctx)))
   \<and> (\<forall>n. parseInt (param_or (limit_param req) ''10'') = Some n \<and> 0 \<le> n \<longrightarrow>
        int (length (response_body (blindspots_GET req ctx))) \<le> n)
   \<and> (limit_param req = None \<longrightarrow>
        parseInt (param_or (limit_param req) ''10'') = Some 10
        \<and> length (response_body (blindspots_GET req ctx)) \<le> 10)"
proof -
  let ?body = "response_body (blindspots_GET req ctx)"
  let ?limit = "parseInt (param_or (limit_param req) ''10'')"
  consider "?body = []"
    | rows where "?body
        = detect_blindspots ?limit (parseFloat (param_or (threshold_param req) ''0.7'')) rows"
    using body_cases by blast
  then have both: "descending (map dominant_percentage ?body)
      \<and> (\<forall>n. ?limit = Some n \<and> 0 \<le> n \<longrightarrow> int (length ?body) \<le> n)"
  proof cases
    case 1
    then show ?thesis by (simp add: descending_def)
  next
    case 2
    have "int (length ?body) \<le> n" if "?limit = Some n" "0 \<le> n" for n
      using that 2 by (simp add: length_detect)
    then show ?thesis using 2 descending_detect by auto
  qed
  then have sorted: "descending (map dominant_percentage ?body)"
    and limited: "\<forall>n. ?limit = Some n \<and> 0 \<le> n \<longrightarrow> int (length ?body) \<le> n"
    by simp_all
  have dflt: "limit_param req = None \<longrightarrow> ?limit = Some 10 \<and> length ?body \<le> 10"
  proof
    assume "limit_param req = None"
    then have ten: "?limit = Some 10" using parseInt_default by simp
    with limited have "int (length ?body) \<le> 10" by simp
    with ten show "?limit = Some 10 \<and> length ?body \<le> 10" by simp
  qed
  show ?thesis
    by (intro conjI sorted limited dflt)
qed

theorem C5_sorted_and_limited_witness:
  "parseInt (param_or (limit_param \<lparr>limit_param = Some ''1'', threshold_param = Some ''0.5''\<rparr>)
      ''10'') = Some 1
   \<and> int (length (response_body
          (blindspots_GET \<lparr>limit_param = Some ''1'', threshold_param = Some ''0.5''\<rparr>
             (returning [example_row 1 ''Gov/Official'' 2, example_row 1 ''Western'' 1,
                         example_row 2 ''Western'' 4])))) \<le> 1
   \<and> response_body
          (blindspots_GET \<lparr>limit_param = Some ''1'', threshold_param = Some ''0.5''\<rparr>
             (returning [example_row 1 ''Gov/Official'' 2, example_row 1 ''Western'' 1,
                         example_row 2 ''Western'' 4]))
       = [example_blindspot 2 [(''Western'', Number 4)] 4 ''Western'' 1]
   \<and> descending (map dominant_percentage (response_body
          (blindspots_GET \<lparr>limit_param = None, threshold_param = Some ''0.5''\<rparr>
             (returning [example_row 1 ''Gov/Official'' 2, example_row 1 ''Western'' 1,
                         example_row 2 ''Western'' 4]))))
   \<and> map dominant_percentage (response_body
          (blindspots_GET \<lparr>limit_param = None, threshold_param = Some ''0.5''\<rparr>
             (returning [example_row 1 ''Gov/Official'' 2, example_row 1 ''Western'' 1,
                         example_row 2 ''Western'' 4])))
       = [Finite 1, Finite (2 / 3)]
   \<and> limit_param \<lparr>limit_param = None, threshold_param = Some ''0.5''\<rparr> = None
   \<and> parseInt (param_or (limit_param \<lparr>limit_param = None, threshold_param = Some ''0.5''\<rparr>)
      ''10'') = Some 10
   \<and> length (response_body (blindspots_GET no_parameters (returning eleven_stories))) \<le> 10"
proof -
  let ?rows = "[example_row 1 ''Gov/Official'' 2, example_row 1 ''Western'' 1,
                example_row 2 ''Western'' 4]"
  let ?one = "\<lparr>limit_param = Some ''1'', threshold_param = Some ''0.5''\<rparr>"
  let ?none = "\<lparr>limit_param = None, threshold_param = Some ''0.5''\<rparr>"
  have one: "parseInt (param_or (limit_param ?one) ''10'') = Some 1"
    by (simp add: parseInt_one)
  from C5_sorted_and_limited [of ?one "returning ?rows"] one
  have "int (length (response_body (blindspots_GET ?one (returning ?rows)))) \<le> 1"
    by simp
  moreover from C5_sorted_and_limited [of ?none "returning ?rows"]
  have "descending (map dominant_percentage (response_body (blindspots_GET ?none (returning ?rows))))"
    and "parseInt (param_or (limit_param ?none) ''10'') = Some 10"
    by simp_all
  moreover from C5_sorted_and_limited [of no_parameters "returning eleven_stories"]
  have "length (response_body (blindspots_GET no_parameters (returning eleven_stories))) \<le> 10"
    by (simp add: no_parameters_def)
  moreover have "map dominant_percentage (response_body (blindspots_GET ?none (returning ?rows)))
       = [Finite 1, Finite (2 / 3)]"
    by (simp add: two_stories_no_limit example_blindspot_def)
  moreover have "response_body (blindspots_GET ?one (returning ?rows))
       = [example_blindspot 2 [(''Western'', Number 4)] 4 ''Western'' 1]"
    by (rule two_stories_limit_one)
  ultimately show ?thesis using one by simp
qed

text \<open>
  C6. Blindspot monotonicity: for one database state and one limit, when the threshold
  of a second request is at least the threshold of a first, the stories returned to the
  second are among those returned to the first, and are not more.
\<close>

theorem C6_threshold_monotone:
  assumes "limit_param req1 = limit_param req2"
    and "js_le (parseFloat (param_or (threshold_param req1) ''0.7''))
               (parseFloat (param_or (threshold_param req2) ''0.7''))"
  shows "set (response_body (blindspots_GET req2 ctx)) \<subseteq> set (response_body (blindspots_GET req1 ctx))
       \<and> length (response_body (blindspots_GET req2 ctx))
           \<le> length (response_body (blindspots_GET req1 ctx))"
proof -
  have "\<exists>j. response_body (blindspots_GET req2 ctx) = take j (response_body (blindspots_GET req1 ctx))"
  proof (cases "\<exists>res rows. ctx = Returns (Some (Returns res)) \<and> results res = Some rows \<and> rows \<noteq> []")
    case True
    then obtain res rows where "ctx = Returns (Some (Returns res))" "results res = Some rows" "rows \<noteq> []"
      by blast
    then show ?thesis
      using detect_blindspots_mono [OF assms(2), of "parseInt (param_or (limit_param req2) ''10'')" rows]
      by (simp add: blindspots_GET_def response_body_def Let_def assms(1))
  next
    case False
    then have "response_body (blindspots_GET req2 ctx) = []"
      by (auto simp add: blindspots_GET_def response_body_def Let_def
          split: outcome.splits option.splits)
    then show ?thesis by simp
  qed
  then obtain j where "response_body (blindspots_GET req2 ctx)
      = take j (response_body (blindspots_GET req1 ctx))" ..
  then show ?thesis by (simp add: set_take_subset)
qed

theorem C6_threshold_monotone_witness:
  "limit_param \<lparr>limit_param = None, threshold_param = Some ''0.5''\<rparr>
     = limit_param no_parameters
   \<and> js_le (parseFloat (param_or (threshold_param
          \<lparr>limit_param = None, threshold_param = Some ''0.5''\<rparr>) ''0.7''))
        (parseFloat (param_or (threshold_param no_parameters) ''0.7''))
   \<and> set (response_body (blindspots_GET no_parameters
          (returning [example_row 1 ''Gov/Official'' 2, example_row 1 ''Western'' 1,
                      example_row 2 ''Western'' 4])))
      \<subseteq> set (response_body (blindspots_GET
          \<lparr>limit_param = None, threshold_param = Some ''0.5''\<rparr>
          (returning [example_row 1 ''Gov/Official'' 2, example_row 1 ''Western'' 1,
                      example_row 2 ''Western'' 4])))
   \<and> length (response_body (blindspots_GET no_parameters
          (returning [example_row 1 ''Gov/Official'' 2, example_row 1 ''Western'' 1,
                      example_row 2 ''Western'' 4])))
      \<le> length (response_body (blindspots_GET
          \<lparr>limit_param = None, threshold_param = Some ''0.5''\<rparr>
          (returning [example_row 1 ''Gov/Official'' 2, example_row 1 ''Western'' 1,
                      example_row 2 ''Western'' 4])))
   \<and> response_body (blindspots_GET no_parameters
          (returning [example_row 1 ''Gov/Official'' 2, example_row 1 ''Western'' 1,
                      example_row 2 ''Western'' 4]))
      = [example_blindspot 2 [(''Western'', Number 4)] 4 ''Western'' 1]"
proof -
  let ?rows = "[example_row 1 ''Gov/Official'' 2, example_row 1 ''Western'' 1,
                example_row 2 ''Western'' 4]"
  let ?half = "\<lparr>limit_param = None, threshold_param = Some ''0.5''\<rparr>"
  have lim: "limit_param ?half = limit_param no_parameters"
    by (simp add: no_parameters_def)
  have le: "js_le (parseFloat (param_or (threshold_param ?half) ''0.7''))
        (parseFloat (param_or (threshold_param no_parameters) ''0.7''))"
    by (simp add: evaluation js_le_def)
  have body: "response_body (blindspots_GET no_parameters (returning ?rows))
      = [example_blindspot 2 [(''Western'', Number 4)] 4 ''Western'' 1]"
    by (simp add: evaluation)
  from C6_threshold_monotone [OF lim le, of "returning ?rows"] lim le body
  show ?thesis by simp
qed

text \<open>
  C7. The division that computes the dominant percentage never divides by zero: a story
  with a total below 3 is skipped before the division, a story that reaches it has a
  positive total and a finite quotient, and every percentage in a response is finite.
\<close>

theorem C7_no_division_by_zero:
  "(total' d < 3 \<longrightarrow> blindspot_of t d = None \<and> blindspot_of_dup t d = None)
   \<and> (\<not> total' d < 3 \<longrightarrow>
        0 < total' d
        \<and> dominant_percentage_of d
            = Finite (of_int (snd (find_dominant (coverage d))) / of_int (total' d)))
   \<and> (\<forall>b \<in> set (detect_blindspots l t rows) \<union> set (detect_blindspots_dup l t rows).
        \<exists>q. dominant_percentage b = Finite q)"
proof -
  have skip: "total' d < 3 \<longrightarrow> blindspot_of t d = None \<and> blindspot_of_dup t d = None"
    by (simp add: blindspot_of_def blindspot_of_dup_def)
  have reach: "\<not> total' d < 3 \<longrightarrow> 0 < total' d
        \<and> dominant_percentage_of d
            = Finite (of_int (snd (find_dominant (coverage d))) / of_int (total' d))"
    by (simp add: dominant_percentage_of_Finite)
  have fin: "\<exists>q. dominant_percentage b = Finite q" if "blindspot_of t e = Some b" for b e
    using blindspot_of_SomeD(1,4)[OF that] by (simp add: dominant_percentage_of_Finite)
  have "\<exists>q. dominant_percentage b = Finite q" if "b \<in> set (detect_blindspots l t rows)" for b
  proof -
    from that set_slice0 have "b \<in> set (identify_blindspots t (group_rows rows))"
      by (fastforce simp add: detect_blindspots_def set_js_sort)
    then show ?thesis using fin by (auto simp add: in_identify_blindspots)
  qed
  moreover
  have "\<exists>q. dominant_percentage b = Finite q" if "b \<in> set (detect_blindspots_dup l t rows)" for b
  proof -
    from that set_slice0 have "b \<in> set (identify_blindspots t (group_rows_dup rows))"
      by (fastforce simp add: detect_blindspots_dup_def set_js_sort identify_blindspots_dup_eq)
    then show ?thesis using fin by (auto simp add: in_identify_blindspots)
  qed
  ultimately show ?thesis using skip reach by blast
qed

theorem C7_no_division_by_zero_witness:
  "\<not> total' (example_data 1 [(''Gov/Official'', Number 7), (''Western'', Number 3)] 10) < 3
   \<and> 0 < total' (example_data 1 [(''Gov/Official'', Number 7), (''Western'', Number 3)] 10)
   \<and> dominant_percentage_of (example_data 1 [(''Gov/Official'', Number 7), (''Western'', Number 3)] 10)
       = Finite (7 / 10)
   \<and> total' (example_data 2 [] 0) < 3
   \<and> blindspot_of (Finite 0) (example_data 2 [] 0) = None
   \<and> blindspot_of_dup (Finite 0) (example_data 2 [] 0) = None
   \<and> detect_blindspots (Some 10) (Finite 0)
        [example_row 1 ''Gov/Official'' 7, example_row 1 ''Western'' 3]
       = [example_blindspot 1 [(''Gov/Official'', Number 7), (''Western'', Number 3)] 10 ''Gov/Official'' (7 / 10)]"
  using C7_no_division_by_zero [of "example_data 1 [(''Gov/Official'', Number 7), (''Western'', Number 3)] 10"
      "Finite 0" "Some 10" "[example_row 1 ''Gov/Official'' 7, example_row 1 ''Western'' 3]"]
    C7_no_division_by_zero [of "example_data 2 [] 0" "Finite 0" "Some 10" "[]"]
  by (simp add: example_data_def find_dominant_example1 detect_example1)




text \<open>
  C9. The two handlers do not answer alike on every query result that respects the
  primary key. For the single row of story 1 with category \<open>constructor\<close> and
  count 5, the route stores the count and answers the story with dominant bias
  \<open>constructor\<close> and dominant percentage 1. The copy reads the inherited function
  \<open>Object\<close> where it expects the count so far, stores the string that \<open>+\<close>
  makes of it, and finds no dominant category: its answer to a request without
  parameters is the empty list, and with threshold 0 the story with an empty dominant
  bias and percentage 0.
\<close>

theorem C9_copy_differs_on_constructor:
  "primary_key [example_row 1 ''constructor'' 5]
   \<and> group_rows [example_row 1 ''constructor'' 5]
       = [(1, example_data 1 [(''constructor'', Number 5)] 5)]
   \<and> group_rows_dup [example_row 1 ''constructor'' 5]
       = [(1, example_data 1 [(''constructor'', Text (Native_function ''Object'') ''5'')] 5)]
   \<and> blindspots_GET no_parameters (returning [example_row 1 ''constructor'' 5])
       = Json [example_blindspot 1 [(''constructor'', Number 5)] 5 ''constructor'' 1]
   \<and> blindspots_GET_dup no_parameters (returning [example_row 1 ''constructor'' 5]) = Json []
   \<and> blindspots_GET_dup \<lparr>limit_param = None, threshold_param = Some ''0''\<rparr>
        (returning [example_row 1 ''constructor'' 5])
       = Json [example_blindspot 1 [(''constructor'', Text (Native_function ''Object'') ''5'')] 5
                 [] 0]"
  by (simp add: primary_key_def evaluation decimal_def decimal_nat.simps)

text \<open>
  C10. \<open>GET /api/stories/[storyId]\<close> validates its path parameter before it touches
  the data: when \<open>parseInt\<close> of the parameter is \<open>NaN\<close> it answers 400 with
  \<open>Invalid story ID\<close> and has read nothing, whatever the context; and when the
  parameter is an integer that no row of \<open>stories\<close> carries, it answers 404 with
  \<open>Story not found\<close> after the one lookup of the story, without reading articles
  or coverage.
\<close>

theorem C10_story_id_validation:
  "(parseInt p = None \<longrightarrow> story_GET p ctx = (Json_error 400 ''Invalid story ID'' None, []))
   \<and> (parseInt p = Some n \<and> story_first DB n = Returns None \<longrightarrow>
        story_GET p (Returns (Some DB))
          = (Json_error 404 ''Story not found'' None, [Story_query n]))
   \<and> (parseInt p = Some n \<and> story_first DB = select_story stories_table
        \<and> (\<forall>s \<in> set stories_table. id' s \<noteq> n) \<longrightarrow>
        story_GET p (Returns (Some DB))
          = (Json_error 404 ''Story not found'' None, [Story_query n]))"
  by (simp add: story_GET_def select_story_absent)

theorem C10_story_id_validation_witness:
  "parseInt ''abc'' = None
   \<and> story_GET ''abc'' (Returns (Some example_database))
       = (Json_error 400 ''Invalid story ID'' None, [])
   \<and> parseInt ''2'' = Some 2
   \<and> story_first example_database = select_story [example_story 1]
   \<and> id' (example_story 1) \<noteq> 2
   \<and> story_GET ''2'' (Returns (Some example_database))
       = (Json_error 404 ''Story not found'' None, [Story_query 2])"
proof -
  have nan: "parseInt ''abc'' = None"
    by (simp add: evaluation)
  have two: "parseInt ''2'' = Some 2"
    by (simp add: evaluation)
  have tbl: "story_first example_database = select_story [example_story 1]"
    by (simp add: example_database_def)
  have absent: "\<forall>s \<in> set [example_story 1]. id' s \<noteq> 2"
    by (simp add: example_story_def)
  from C10_story_id_validation [of "''abc''" "Returns (Some example_database)" 2 example_database "[]"] nan
  have a: "story_GET ''abc'' (Returns (Some example_database))
       = (Json_error 400 ''Invalid story ID'' None, [])" by blast
  from C10_story_id_validation [of "''2''" "Returns (Some example_database)" 2 example_database
      "[example_story 1]"] two tbl absent
  have b: "story_GET ''2'' (Returns (Some example_database))
       = (Json_error 404 ''Story not found'' None, [Story_query 2])" by blast
  show ?thesis using nan two tbl a b by (simp add: example_story_def)
qed

end
